theory Spec2Isabelle
  imports Complex_Main "HOL-Library.Multiset"
begin

section \<open>Python and numpy values\<close>

text \<open>
  The exceptions the four modules can raise, as values. \<open>KeyError\<close> carries its argument.
\<close>

datatype error = KeyError string | TypeError | AttributeError | IndexError | ValueError

definition and_then :: "error + 'a \<Rightarrow> ('a \<Rightarrow> error + 'b) \<Rightarrow> error + 'b" where
  "and_then m f = (case m of Inl e \<Rightarrow> Inl e | Inr x \<Rightarrow> f x)"

text \<open>
  numpy arrays carry their shape; the elements are nested lists read through the shape.
  One-dimensional arrays are plain lists. Correlations are idealised as reals, integer
  arrays as unbounded integers.
\<close>

record 'a ndarray2 =
  shape0 :: nat
  shape1 :: nat
  data :: "'a list list"

record 'a ndarray3 =
  shape3 :: "nat \<times> nat \<times> nat"
  data3 :: "'a list list list"

record 'a ndarray4 =
  shape4 :: "nat \<times> nat \<times> nat \<times> nat"
  data4 :: "'a list list list list"

definition wf2 :: "'a ndarray2 \<Rightarrow> bool" where
  "wf2 A \<longleftrightarrow> length (data A) = shape0 A \<and> (\<forall>r \<in> set (data A). length r = shape1 A)"

text \<open>Integer indexing of an axis of length \<open>n\<close>: \<open>-n \<le> i < n\<close>, negative indices count from the end.\<close>

definition in_bounds :: "nat \<Rightarrow> int \<Rightarrow> bool" where
  "in_bounds n i \<longleftrightarrow> - int n \<le> i \<and> i < int n"

definition wrap :: "nat \<Rightarrow> int \<Rightarrow> nat" where
  "wrap n i = nat (if i < 0 then i + int n else i)"

definition arange :: "nat \<Rightarrow> int list" where
  "arange n = map int [0..<n]"

text \<open>\<^verbatim>\<open>np.tile(A, reps=(c, 1))\<close> for one-dimensional \<open>A\<close>.\<close>

definition tile :: "'a list \<Rightarrow> nat \<Rightarrow> 'a ndarray2" where
  "tile A c = \<lparr>shape0 = c, shape1 = length A, data = replicate c A\<rparr>"

text \<open>\<^verbatim>\<open>A[:, i]\<close> for a loop counter \<open>i\<close>.\<close>

definition column :: "'a ndarray2 \<Rightarrow> nat \<Rightarrow> error + 'a list" where
  "column A i =
     (if i < shape1 A then Inr (map (\<lambda>a. data A ! a ! i) [0..<shape0 A]) else Inl IndexError)"

text \<open>\<^verbatim>\<open>A[idx]\<close> for a one-dimensional integer array \<open>idx\<close>.\<close>

definition take_rows :: "'a ndarray2 \<Rightarrow> int list \<Rightarrow> error + 'a ndarray2" where
  "take_rows A idx =
     (if \<forall>k \<in> set idx. in_bounds (shape0 A) k
      then Inr \<lparr>shape0 = length idx, shape1 = shape1 A,
                data = map (\<lambda>k. data A ! wrap (shape0 A) k) idx\<rparr>
      else Inl IndexError)"

text \<open>\<^verbatim>\<open>A[:, idx]\<close> for a one-dimensional integer array \<open>idx\<close>.\<close>

definition take_cols :: "'a ndarray2 \<Rightarrow> int list \<Rightarrow> error + 'a ndarray2" where
  "take_cols A idx =
     (if \<forall>k \<in> set idx. in_bounds (shape1 A) k
      then Inr \<lparr>shape0 = shape0 A, shape1 = length idx,
                data = map (\<lambda>a. map (\<lambda>k. data A ! a ! wrap (shape1 A) k) idx) [0..<shape0 A]\<rparr>
      else Inl IndexError)"

text \<open>\<^verbatim>\<open>A.sum()\<close>.\<close>

definition array_sum :: "real ndarray2 \<Rightarrow> real" where
  "array_sum A = sum_list (map (\<lambda>a. sum_list (map (\<lambda>b. data A ! a ! b) [0..<shape1 A])) [0..<shape0 A])"

text \<open>\<^verbatim>\<open>A[idx]\<close> for a two-dimensional integer array \<open>idx\<close>: one row of \<open>A\<close> per entry of \<open>idx\<close>.\<close>

definition index_rows :: "'a ndarray2 \<Rightarrow> int ndarray2 \<Rightarrow> error + 'a ndarray3" where
  "index_rows A idx =
     (if \<forall>a \<in> set [0..<shape0 idx]. \<forall>i \<in> set [0..<shape1 idx]. in_bounds (shape0 A) (data idx ! a ! i)
      then Inr \<lparr>shape3 = (shape0 idx, shape1 idx, shape1 A),
                data3 = map (\<lambda>a. map (\<lambda>i. data A ! wrap (shape0 A) (data idx ! a ! i))
                                    [0..<shape1 idx]) [0..<shape0 idx]\<rparr>
      else Inl IndexError)"

text \<open>\<^verbatim>\<open>X[:, :, idx]\<close> for a two-dimensional integer array \<open>idx\<close>.\<close>

definition index_last :: "'a ndarray3 \<Rightarrow> int ndarray2 \<Rightarrow> error + 'a ndarray4" where
  "index_last X idx =
     (case shape3 X of (n0, n1, n2) \<Rightarrow>
        if \<forall>b \<in> set [0..<shape0 idx]. \<forall>j \<in> set [0..<shape1 idx]. in_bounds n2 (data idx ! b ! j)
        then Inr \<lparr>shape4 = (n0, n1, shape0 idx, shape1 idx),
                  data4 = map (\<lambda>a. map (\<lambda>i. map (\<lambda>b. map (\<lambda>j.
                              data3 X ! a ! i ! wrap n2 (data idx ! b ! j))
                            [0..<shape1 idx]) [0..<shape0 idx]) [0..<n1]) [0..<n0]\<rparr>
        else Inl IndexError)"

text \<open>\<^verbatim>\<open>np.diagonal(X, axis1=1, axis2=3)\<close>: the diagonal becomes the last axis.\<close>

definition diagonal13 :: "'a ndarray4 \<Rightarrow> 'a ndarray3" where
  "diagonal13 X =
     (case shape4 X of (n0, n1, n2, n3) \<Rightarrow>
        \<lparr>shape3 = (n0, n2, min n1 n3),
         data3 = map (\<lambda>a. map (\<lambda>b. map (\<lambda>k. data4 X ! a ! k ! b ! k)
                     [0..<min n1 n3]) [0..<n2]) [0..<n0]\<rparr>)"

text \<open>\<^verbatim>\<open>X.T\<close> reverses the axes.\<close>

definition transpose3 :: "'a ndarray3 \<Rightarrow> 'a ndarray3" where
  "transpose3 X =
     (case shape3 X of (n0, n1, n2) \<Rightarrow>
        \<lparr>shape3 = (n2, n1, n0),
         data3 = map (\<lambda>k. map (\<lambda>b. map (\<lambda>a. data3 X ! a ! b ! k)
                     [0..<n0]) [0..<n1]) [0..<n2]\<rparr>)"

text \<open>
  \<^verbatim>\<open>A + v[:, None]\<close>: the column \<open>v\<close> of shape \<open>(len v, 1)\<close> is broadcast against \<open>A\<close>;
  axis 0 must agree unless one of the two has length 1.
\<close>

definition add_column :: "int ndarray2 \<Rightarrow> int list \<Rightarrow> error + int ndarray2" where
  "add_column A v =
     (if shape0 A = length v
      then Inr \<lparr>shape0 = length v, shape1 = shape1 A,
                data = map (\<lambda>a. map (\<lambda>i. data A ! a ! i + v ! a) [0..<shape1 A]) [0..<length v]\<rparr>
      else if length v = 1
      then Inr \<lparr>shape0 = shape0 A, shape1 = shape1 A,
                data = map (\<lambda>a. map (\<lambda>i. data A ! a ! i + v ! 0) [0..<shape1 A]) [0..<shape0 A]\<rparr>
      else if shape0 A = 1
      then Inr \<lparr>shape0 = length v, shape1 = shape1 A,
                data = map (\<lambda>a. map (\<lambda>i. data A ! 0 ! i + v ! a) [0..<shape1 A]) [0..<length v]\<rparr>
      else Inl ValueError)"

text \<open>
  \<^verbatim>\<open>A[i] = v\<close>: the index is checked first, then \<open>v\<close> is broadcast into the row
  (equal length, or length 1).
\<close>

definition setitem_row :: "'a ndarray2 \<Rightarrow> int \<Rightarrow> 'a list \<Rightarrow> error + 'a ndarray2" where
  "setitem_row A i v =
     (if \<not> in_bounds (shape0 A) i then Inl IndexError
      else if length v = shape1 A then Inr (A\<lparr>data := (data A)[wrap (shape0 A) i := v]\<rparr>)
      else if length v = 1
      then Inr (A\<lparr>data := (data A)[wrap (shape0 A) i := replicate (shape1 A) (v ! 0)]\<rparr>)
      else Inl ValueError)"

subsection \<open>The random source\<close>

text \<open>
  The process-wide generator \<^verbatim>\<open>rng\<close> is an oracle: every call takes its draw as
  an argument. \<^verbatim>\<open>rng.permutation(x)\<close> rearranges \<open>x\<close> by a drawn list of positions,
  which numpy guarantees to be a permutation of the positions of \<open>x\<close>;
  \<^verbatim>\<open>rng.permutation(n)\<close> is \<^verbatim>\<open>rng.permutation(np.arange(n))\<close>.
  \<^verbatim>\<open>rng.integers(high)\<close> returns the drawn number, which numpy guarantees to be below
  \<open>high\<close>, and raises when \<open>high\<close> is 0.
\<close>

definition rng_permutation :: "nat list \<Rightarrow> 'a list \<Rightarrow> 'a list" where
  "rng_permutation pick x = map (\<lambda>k. x ! k) pick"

definition shuffle_of :: "nat \<Rightarrow> nat list \<Rightarrow> bool" where
  "shuffle_of n pick \<longleftrightarrow> mset pick = mset [0..<n]"

definition rng_integers :: "nat \<Rightarrow> nat \<Rightarrow> error + int" where
  "rng_integers k high = (if high = 0 then Inl ValueError else Inr (int k))"

text \<open>
  \<^verbatim>\<open>np.apply_along_axis(func1d, axis=1, arr)\<close>: raises when there is no row; the
  result has one row per row of \<open>arr\<close>, as long as the first result. The \<open>a\<close>-th call
  of \<open>func1d\<close> is \<open>f a\<close>.
\<close>

definition apply_along_axis1 :: "(nat \<Rightarrow> 'a list \<Rightarrow> 'a list) \<Rightarrow> 'a ndarray2 \<Rightarrow> error + 'a ndarray2" where
  "apply_along_axis1 f arr =
     (if shape0 arr = 0 then Inl ValueError
      else Inr \<lparr>shape0 = shape0 arr, shape1 = length (f 0 (data arr ! 0)),
                data = map (\<lambda>a. f a (data arr ! a)) [0..<shape0 arr]\<rparr>)"

section \<open>solution.py\<close>

text \<open>
  Arrays and Solution objects are mutable and shared by reference, so both live in a
  store; a reference is a position in it, and allocation appends. The counts
  \<open>n_modes\<close>, \<open>n_channels\<close> and \<open>n_steps\<close> are natural numbers; a channel index is an
  integer, since numpy accepts negative ones.
\<close>

type_synonym ref = nat

record MetaModeSolution =
  n_modes :: nat
  n_channels :: nat
  n_metamodes :: nat
  unpermuted_modes :: ref
  permuted_modes :: "ref option"

record store =
  arrays :: "int ndarray2 list"
  solutions :: "MetaModeSolution list"

definition new_array :: "int ndarray2 \<Rightarrow> store \<Rightarrow> ref \<times> store" where
  "new_array A h = (length (arrays h), h\<lparr>arrays := arrays h @ [A]\<rparr>)"

definition new_solution :: "MetaModeSolution \<Rightarrow> store \<Rightarrow> ref \<times> store" where
  "new_solution S h = (length (solutions h), h\<lparr>solutions := solutions h @ [S]\<rparr>)"

definition set_permuted_modes :: "ref \<Rightarrow> ref \<Rightarrow> store \<Rightarrow> store" where
  "set_permuted_modes self p h =
     h\<lparr>solutions := (solutions h)[self := (solutions h ! self)\<lparr>permuted_modes := Some p\<rparr>]\<rparr>"

text \<open>\<^verbatim>\<open>MetaModeSolution.__init__\<close>; a supplied \<open>permutation\<close> is stored by reference.\<close>

definition Solution_init :: "nat \<Rightarrow> nat \<Rightarrow> ref option \<Rightarrow> store \<Rightarrow> ref \<times> store" where
  "Solution_init m c permutation h =
     (case (case permutation of
              None \<Rightarrow> new_array (tile (arange m) c) h
            | Some a \<Rightarrow> (a, h)) of
        (u, h1) \<Rightarrow>
          new_solution \<lparr>n_modes = m, n_channels = c, n_metamodes = m,
                        unpermuted_modes = u, permuted_modes = None\<rparr> h1)"

text \<open>\<^verbatim>\<open>random_permutation\<close>; \<open>picks a\<close> is the draw of the call on row \<open>a\<close>.\<close>

definition Solution_random_permutation :: "(nat \<Rightarrow> nat list) \<Rightarrow> ref \<Rightarrow> store \<Rightarrow> error + ref \<times> store" where
  "Solution_random_permutation picks self h =
     and_then (apply_along_axis1 (\<lambda>a. rng_permutation (picks a))
                 (arrays h ! unpermuted_modes (solutions h ! self)))
       (\<lambda>arr. case new_array arr h of (p, h1) \<Rightarrow> Inr (self, set_permuted_modes self p h1))"

text \<open>\<^verbatim>\<open>permute_one_channel\<close>; \<open>pick\<close> is the draw of \<^verbatim>\<open>rng.permutation(self.n_modes)\<close>.\<close>

definition Solution_permute_one_channel :: "int \<Rightarrow> nat list \<Rightarrow> ref \<Rightarrow> store \<Rightarrow> error + ref \<times> store" where
  "Solution_permute_one_channel channel pick self h =
     (case new_array (arrays h ! unpermuted_modes (solutions h ! self)) h of
        (p, h1) \<Rightarrow>
          (let h2 = set_permuted_modes self p h1;
               v = rng_permutation pick (arange (n_modes (solutions h2 ! self)))
           in and_then (setitem_row (arrays h2 ! p) channel v)
                (\<lambda>A. Inr (self, h2\<lparr>arrays := (arrays h2)[p := A]\<rparr>))))"

text \<open>\<^verbatim>\<open>MetaModeSolution.step\<close>; the draw is the channel number and the row draw.\<close>

definition Solution_step :: "nat \<times> nat list \<Rightarrow> ref \<Rightarrow> store \<Rightarrow> error + ref \<times> store" where
  "Solution_step d self h =
     and_then (rng_integers (fst d) (n_channels (solutions h ! self)))
       (\<lambda>channel. Solution_permute_one_channel channel (snd d) self h)"

text \<open>\<^verbatim>\<open>copy\<close>: \<^verbatim>\<open>None.copy()\<close> is an AttributeError.\<close>

definition Solution_copy :: "ref \<Rightarrow> store \<Rightarrow> error + ref \<times> store" where
  "Solution_copy self h =
     (case permuted_modes (solutions h ! self) of
        None \<Rightarrow> Inl AttributeError
      | Some p \<Rightarrow>
          (case new_array (arrays h ! p) h of
             (a, h1) \<Rightarrow>
               Inr (Solution_init (n_modes (solutions h ! self))
                      (n_channels (solutions h ! self)) (Some a) h1)))"

section \<open>objectives.py\<close>

text \<open>The member \<^verbatim>\<open>SUM\<close> is \<open>SUM'\<close>.\<close>

datatype Objective = SUM' | ABS_SUM | DYN_SUM

fun member_name :: "Objective \<Rightarrow> string" where
  "member_name SUM' = ''SUM''"
| "member_name ABS_SUM = ''ABS_SUM''"
| "member_name DYN_SUM = ''DYN_SUM''"

fun member_value :: "Objective \<Rightarrow> string" where
  "member_value SUM' = ''sum''"
| "member_value ABS_SUM = ''abs_sum''"
| "member_value DYN_SUM = ''dyn_sum''"

text \<open>\<^verbatim>\<open>Objective[name]\<close>: lookup by member name; the KeyError carries the name.\<close>

definition Objective_getitem :: "string \<Rightarrow> error + Objective" where
  "Objective_getitem name =
     (if name = ''SUM'' then Inr SUM'
      else if name = ''ABS_SUM'' then Inr ABS_SUM
      else if name = ''DYN_SUM'' then Inr DYN_SUM
      else Inl (KeyError name))"

text \<open>\<^verbatim>\<open>Objective._names\<close>, when called.\<close>

definition names :: "Objective \<Rightarrow> string list" where
  "names self = [''SUM'', ''ABS_SUM'', ''DYN_SUM'']"

text \<open>
  The f-string formats \<^verbatim>\<open>self._names\<close>, the bound method, without calling it: the text
  is the method's \<^verbatim>\<open>repr\<close>.
\<close>

definition undefined_msg :: "Objective \<Rightarrow> string" where
  "undefined_msg self =
     ''Objective not recognised. Choose from <bound method Objective._names of <Objective.''
     @ member_name self @ '': '' @ [CHR 0x27] @ member_value self @ [CHR 0x27] @ ''>>''"

text \<open>
  One slot of the loop of \<^verbatim>\<open>sum_perms\<close>: the sum of \<^verbatim>\<open>second_pass\<close>. The two
  scoring functions are modelled as Python and numpy run their bodies, where an index out
  of range raises IndexError; compiled by numba the bounds are not checked.
\<close>

definition slot_sum :: "real ndarray2 \<Rightarrow> int ndarray2 \<Rightarrow> nat \<Rightarrow> error + real" where
  "slot_sum big_corr perm i =
     and_then (column perm i) (\<lambda>idx.
     and_then (take_rows big_corr idx) (\<lambda>first_pass.
     and_then (take_cols first_pass idx) (\<lambda>second_pass.
     Inr (array_sum second_pass))))"

fun sum_loop :: "real ndarray2 \<Rightarrow> int ndarray2 \<Rightarrow> nat list \<Rightarrow> real \<Rightarrow> error + real" where
  "sum_loop big_corr perm [] ret = Inr ret"
| "sum_loop big_corr perm (i # is) ret =
     and_then (slot_sum big_corr perm i) (\<lambda>s. sum_loop big_corr perm is (ret + s))"

definition sum_perms :: "real ndarray2 \<Rightarrow> int ndarray2 \<Rightarrow> nat \<Rightarrow> nat \<Rightarrow> error + real" where
  "sum_perms big_corr perm m c =
     and_then (sum_loop big_corr perm [0..<m] 0) (\<lambda>ret. Inr (ret - real m * real c))"

fun abs_sum_loop :: "real ndarray2 \<Rightarrow> int ndarray2 \<Rightarrow> nat list \<Rightarrow> real \<Rightarrow> error + real" where
  "abs_sum_loop big_corr perm [] ret = Inr ret"
| "abs_sum_loop big_corr perm (i # is) ret =
     and_then (slot_sum big_corr perm i) (\<lambda>s. abs_sum_loop big_corr perm is (ret + \<bar>s\<bar>))"

definition abs_sum_perms :: "real ndarray2 \<Rightarrow> int ndarray2 \<Rightarrow> nat \<Rightarrow> nat \<Rightarrow> error + real" where
  "abs_sum_perms big_corr perm m c =
     and_then (abs_sum_loop big_corr perm [0..<m] 0) (\<lambda>ret. Inr (ret - real m * real c))"

text \<open>The property \<^verbatim>\<open>Objective.func\<close>.\<close>

definition func :: "Objective \<Rightarrow> error + (real ndarray2 \<Rightarrow> int ndarray2 \<Rightarrow> nat \<Rightarrow> nat \<Rightarrow> error + real)" where
  "func self =
     (case self of
        SUM' \<Rightarrow> Inr sum_perms
      | ABS_SUM \<Rightarrow> Inr abs_sum_perms
      | _ \<Rightarrow> Inl (KeyError (undefined_msg self)))"

section \<open>problem.py\<close>

record MetaModeProblem =
  correlation_matrix :: "real ndarray2"
  n_modes :: nat
  n_channels :: nat
  n_metamodes :: nat
  objective :: Objective
  reindexer :: "int list"

text \<open>The objective argument is \<^verbatim>\<open>str | Objective\<close>.\<close>

datatype selector = Str string | Member Objective

definition Problem_init :: "real ndarray2 \<Rightarrow> nat \<Rightarrow> nat \<Rightarrow> selector \<Rightarrow> error + MetaModeProblem" where
  "Problem_init corr m c sel =
     and_then (case sel of Str name \<Rightarrow> Objective_getitem name | Member ob \<Rightarrow> Inr ob)
       (\<lambda>ob. Inr \<lparr>correlation_matrix = corr, n_modes = m, n_channels = c, n_metamodes = m,
                  objective = ob, reindexer = map (\<lambda>a. a * int m) (arange c)\<rparr>)"

text \<open>
  \<^verbatim>\<open>solution.permuted_modes + self.reindexer[:, None]\<close>. Adding an integer array to
  \<^verbatim>\<open>None\<close> raises TypeError as soon as the array has an element, which is the case of
  a Problem with a channel.
\<close>

definition global_indices :: "MetaModeProblem \<Rightarrow> ref \<Rightarrow> store \<Rightarrow> error + int ndarray2" where
  "global_indices self solution h =
     (case permuted_modes (solutions h ! solution) of
        None \<Rightarrow> Inl TypeError
      | Some p \<Rightarrow> add_column (arrays h ! p) (reindexer self))"

definition Problem_evaluate :: "MetaModeProblem \<Rightarrow> ref \<Rightarrow> store \<Rightarrow> error + real" where
  "Problem_evaluate self solution h =
     and_then (func (objective self)) (\<lambda>f.
     and_then (global_indices self solution h) (\<lambda>perm.
     f (correlation_matrix self) perm (MetaModeProblem.n_modes self)
       (MetaModeProblem.n_channels self)))"

definition Problem_generate :: "MetaModeProblem \<Rightarrow> ref \<Rightarrow> store \<Rightarrow> error + real ndarray3" where
  "Problem_generate self solution h =
     and_then (global_indices self solution h) (\<lambda>perm.
     and_then (index_rows (correlation_matrix self) perm) (\<lambda>X.
     and_then (index_last X perm) (\<lambda>Y.
     Inr (transpose3 (diagonal13 Y)))))"

section \<open>solver.py\<close>

text \<open>
  The progress bar \<^verbatim>\<open>_tqdm\<close> only observes and is left out. The field \<^verbatim>\<open>record\<close> is
  \<open>record'\<close>, \<^verbatim>\<open>_iteration\<close> is \<open>iteration\<close>.
\<close>

record MetaModeSolver =
  problem :: MetaModeProblem
  best_solution :: ref
  best_value :: real
  iteration :: nat
  record' :: "(nat \<times> real) list"
  steps :: "real ndarray3 list"

definition Solver_init ::
  "real ndarray2 \<Rightarrow> nat \<Rightarrow> nat \<Rightarrow> selector \<Rightarrow> (nat \<Rightarrow> nat list) \<Rightarrow> store \<Rightarrow> error + MetaModeSolver \<times> store" where
  "Solver_init corr m c sel picks h =
     and_then (Problem_init corr m c sel) (\<lambda>prob.
     case Solution_init m c None h of (solution, h1) \<Rightarrow>
     and_then (Solution_random_permutation picks solution h1) (\<lambda>(best, h2).
     and_then (Problem_evaluate prob best h2) (\<lambda>value.
     Inr (\<lparr>problem = prob, best_solution = best, best_value = value, iteration = 0,
           record' = [], steps = []\<rparr>, h2))))"

text \<open>\<^verbatim>\<open>MetaModeSolver.step\<close>, with the draw of the candidate's \<^verbatim>\<open>step()\<close>.\<close>

definition Solver_step :: "nat \<times> nat list \<Rightarrow> MetaModeSolver \<Rightarrow> store \<Rightarrow> error + bool \<times> MetaModeSolver \<times> store" where
  "Solver_step d self h =
     and_then (Solution_copy (best_solution self) h) (\<lambda>(solution, h1).
     and_then (Solution_step d solution h1) (\<lambda>(_, h2).
     and_then (Problem_evaluate (problem self) solution h2) (\<lambda>value.
     if value > best_value self
     then Inr (True, self\<lparr>best_solution := solution, best_value := value\<rparr>, h2)
     else Inr (False, self, h2))))"

text \<open>The body of the loop of \<^verbatim>\<open>solve\<close>.\<close>

definition solve_body :: "nat \<times> nat list \<Rightarrow> MetaModeSolver \<Rightarrow> store \<Rightarrow> error + MetaModeSolver \<times> store" where
  "solve_body d self h =
     and_then (Solver_step d self h) (\<lambda>(accepted, self1, h1).
     and_then (if accepted
               then and_then (Problem_generate (problem self1) (best_solution self1) h1) (\<lambda>t.
                      Inr (self1\<lparr>record' := record' self1 @ [(iteration self1, best_value self1)],
                                 steps := steps self1 @ [t]\<rparr>))
               else Inr self1) (\<lambda>self2.
     Inr (self2\<lparr>iteration := iteration self2 + 1\<rparr>, h1)))"

text \<open>
  \<^verbatim>\<open>solve(n_steps)\<close>: the loop over \<^verbatim>\<open>trange(n_steps)\<close>; \<open>draws k\<close> is the draw of
  iteration \<open>k\<close>.
\<close>

fun solve_loop :: "(nat \<Rightarrow> nat \<times> nat list) \<Rightarrow> nat list \<Rightarrow> MetaModeSolver \<Rightarrow> store \<Rightarrow> error + MetaModeSolver \<times> store" where
  "solve_loop draws [] self h = Inr (self, h)"
| "solve_loop draws (k # ks) self h =
     and_then (solve_body (draws k) self h) (\<lambda>(self1, h1). solve_loop draws ks self1 h1)"

definition Solver_solve :: "nat \<Rightarrow> (nat \<Rightarrow> nat \<times> nat list) \<Rightarrow> MetaModeSolver \<Rightarrow> store \<Rightarrow> error + MetaModeSolver \<times> store" where
  "Solver_solve n_steps draws self h = solve_loop draws [0..<n_steps] self h"

text \<open>A caller's sequence of \<^verbatim>\<open>step()\<close> calls on one Solver, one draw per call.\<close>

fun Solver_steps :: "(nat \<times> nat list) list \<Rightarrow> MetaModeSolver \<Rightarrow> store \<Rightarrow> error + MetaModeSolver \<times> store" where
  "Solver_steps [] self h = Inr (self, h)"
| "Solver_steps (d # ds) self h =
     and_then (Solver_step d self h) (\<lambda>(accepted, self1, h1). Solver_steps ds self1 h1)"

definition get_solution :: "MetaModeSolver \<Rightarrow> ref" where
  "get_solution self = best_solution self"

definition get_value :: "MetaModeSolver \<Rightarrow> real" where
  "get_value self = best_value self"

definition Solver_generate :: "MetaModeSolver \<Rightarrow> store \<Rightarrow> error + real ndarray3" where
  "Solver_generate self h = Problem_generate (problem self) (best_solution self) h"

section \<open>Invariants\<close>

text \<open>
  A table of \<open>c\<close> rows and \<open>m\<close> columns is valid when its entries are mode indices, and a
  permutation table when every row is a permutation of \<open>0..m-1\<close>. A Solution is in order
  when its fields agree with the shape of the table it refers to. A draw of
  \<^verbatim>\<open>MetaModeSolution.step\<close> is what numpy can return: a channel below \<open>c\<close> and a
  permutation of the \<open>m\<close> positions. \<open>untouched h h'\<close> says that every array and every
  Solution object of the store \<open>h\<close> is still there, unchanged, in \<open>h'\<close>.
\<close>

definition valid_table :: "nat \<Rightarrow> nat \<Rightarrow> int ndarray2 \<Rightarrow> bool" where
  "valid_table m c A \<longleftrightarrow>
     wf2 A \<and> shape0 A = c \<and> shape1 A = m \<and> (\<forall>r \<in> set (data A). \<forall>x \<in> set r. 0 \<le> x \<and> x < int m)"

definition perm_table :: "nat \<Rightarrow> nat \<Rightarrow> int ndarray2 \<Rightarrow> bool" where
  "perm_table m c A \<longleftrightarrow>
     wf2 A \<and> shape0 A = c \<and> shape1 A = m \<and> (\<forall>r \<in> set (data A). mset r = mset (arange m))"

definition unpermuted_ok :: "nat \<Rightarrow> nat \<Rightarrow> ref \<Rightarrow> store \<Rightarrow> bool" where
  "unpermuted_ok m c s h \<longleftrightarrow>
     s < length (solutions h) \<and>
     MetaModeSolution.n_modes (solutions h ! s) = m \<and>
     MetaModeSolution.n_channels (solutions h ! s) = c \<and>
     unpermuted_modes (solutions h ! s) < length (arrays h) \<and>
     perm_table m c (arrays h ! unpermuted_modes (solutions h ! s))"

definition permuted_ok :: "nat \<Rightarrow> nat \<Rightarrow> ref \<Rightarrow> store \<Rightarrow> bool" where
  "permuted_ok m c s h \<longleftrightarrow>
     s < length (solutions h) \<and>
     MetaModeSolution.n_modes (solutions h ! s) = m \<and>
     MetaModeSolution.n_channels (solutions h ! s) = c \<and>
     (case permuted_modes (solutions h ! s) of
        None \<Rightarrow> False
      | Some p \<Rightarrow> p < length (arrays h) \<and> perm_table m c (arrays h ! p))"

definition draw_ok :: "nat \<Rightarrow> nat \<Rightarrow> nat \<times> nat list \<Rightarrow> bool" where
  "draw_ok m c d \<longleftrightarrow> fst d < c \<and> shuffle_of m (snd d)"

definition untouched :: "store \<Rightarrow> store \<Rightarrow> bool" where
  "untouched h h' \<longleftrightarrow>
     take (length (arrays h)) (arrays h') = arrays h \<and>
     take (length (solutions h)) (solutions h') = solutions h"

text \<open>
  The entry that the specification gives for \<^verbatim>\<open>generate\<close> at \<open>(i, a, b)\<close>, in its
  words: \<open>big_corr[perm[a][i] + a*n_modes, perm[b][i] + b*n_modes]\<close>. A correlation
  matrix is symmetric when it is square and equal to its transpose. A Problem is in
  order when its re-indexer is the one its constructor computes and its matrix has
  \<open>n_channels * n_modes\<close> rows and columns. \<open>unit_diagonal n A\<close> says that \<open>A\<close> has
  \<open>n\<close> rows and columns, diagonal entries 1 and all other entries 0. \<open>global_table\<close>
  is the table of global indices, \<open>perm[a][i] + a * n_modes\<close>.
\<close>

definition claimed_entry :: "real ndarray2 \<Rightarrow> int ndarray2 \<Rightarrow> nat \<Rightarrow> nat \<Rightarrow> nat \<Rightarrow> nat \<Rightarrow> real" where
  "claimed_entry big_corr perm m i a b =
     data big_corr ! nat (data perm ! a ! i + int a * int m)
                   ! nat (data perm ! b ! i + int b * int m)"

definition symmetric :: "real ndarray2 \<Rightarrow> bool" where
  "symmetric A \<longleftrightarrow>
     shape0 A = shape1 A \<and>
     (\<forall>i \<in> set [0..<shape0 A]. \<forall>j \<in> set [0..<shape0 A]. data A ! i ! j = data A ! j ! i)"

definition problem_ok :: "nat \<Rightarrow> nat \<Rightarrow> MetaModeProblem \<Rightarrow> bool" where
  "problem_ok m c prob \<longleftrightarrow>
     MetaModeProblem.n_modes prob = m \<and> MetaModeProblem.n_channels prob = c \<and>
     reindexer prob = map (\<lambda>a. a * int m) (arange c) \<and>
     shape0 (correlation_matrix prob) = c * m \<and> shape1 (correlation_matrix prob) = c * m"

definition unit_diagonal :: "nat \<Rightarrow> real ndarray2 \<Rightarrow> bool" where
  "unit_diagonal n A \<longleftrightarrow>
     shape0 A = n \<and> shape1 A = n \<and>
     (\<forall>j \<in> set [0..<n]. \<forall>k \<in> set [0..<n]. data A ! j ! k = (if j = k then 1 else 0))"

definition global_table :: "int ndarray2 \<Rightarrow> nat \<Rightarrow> nat \<Rightarrow> int ndarray2" where
  "global_table P m c =
     \<lparr>shape0 = c, shape1 = m,
      data = map (\<lambda>a. map (\<lambda>i. data P ! a ! i + int a * int m) [0..<m]) [0..<c]\<rparr>"

text \<open>
  A Solver is in order when its Problem is, its objective has a function, and its best
  solution holds a permutation table. Its log is in order when \<open>record\<close> and \<open>steps\<close>
  have the same length and the recorded iterations increase strictly and lie below the
  iteration counter.
\<close>

definition solver_ok :: "nat \<Rightarrow> nat \<Rightarrow> MetaModeSolver \<Rightarrow> store \<Rightarrow> bool" where
  "solver_ok m c self h \<longleftrightarrow>
     problem_ok m c (problem self) \<and> objective (problem self) \<noteq> DYN_SUM \<and>
     permuted_ok m c (best_solution self) h"

definition log_ok :: "MetaModeSolver \<Rightarrow> bool" where
  "log_ok self \<longleftrightarrow>
     length (record' self) = length (steps self) \<and>
     sorted_wrt (<) (map fst (record' self)) \<and>
     list_all (\<lambda>k. k < iteration self) (map fst (record' self))"

section \<open>Example inputs\<close>

text \<open>
  Two channels with two modes each: mode 0 of channel 0 correlates with mode 1 of
  channel 1, and mode 1 of channel 0 with mode 0 of channel 1.
\<close>

definition ex_corr :: "real ndarray2" where
  "ex_corr = \<lparr>shape0 = 4, shape1 = 4,
     data = [[1, 0, 0, 1/2], [0, 1, 1/2, 0], [0, 1/2, 1, 0], [1/2, 0, 0, 1]]\<rparr>"

definition ex_store :: store where
  "ex_store = \<lparr>arrays = [], solutions = []\<rparr>"

text \<open>The Problem over \<open>ex_corr\<close> with the sum objective, and a fresh default Solution.\<close>

definition ex_problem :: MetaModeProblem where
  "ex_problem = \<lparr>correlation_matrix = ex_corr, n_modes = 2, n_channels = 2, n_metamodes = 2,
                  objective = SUM', reindexer = [0, 2]\<rparr>"

definition ex_fresh :: store where
  "ex_fresh = \<lparr>arrays = [\<lparr>shape0 = 2, shape1 = 2, data = [[0, 1], [0, 1]]\<rparr>],
      solutions = [\<lparr>MetaModeSolution.n_modes = 2, n_channels = 2, n_metamodes = 2,
                    unpermuted_modes = 0, permuted_modes = None\<rparr>]\<rparr>"

text \<open>The Solver started on \<open>ex_corr\<close> with identity draws, and the store after one accepted step.\<close>

definition ex_solver :: MetaModeSolver where
  "ex_solver = \<lparr>problem = ex_problem, best_solution = 0, best_value = 0, iteration = 0,
                 record' = [], steps = []\<rparr>"

definition ex_started :: store where
  "ex_started = \<lparr>arrays = [\<lparr>shape0 = 2, shape1 = 2, data = [[0, 1], [0, 1]]\<rparr>,
                            \<lparr>shape0 = 2, shape1 = 2, data = [[0, 1], [0, 1]]\<rparr>],
      solutions = [\<lparr>MetaModeSolution.n_modes = 2, n_channels = 2, n_metamodes = 2,
                    unpermuted_modes = 0, permuted_modes = Some 1\<rparr>]\<rparr>"

definition ex_stepped :: store where
  "ex_stepped = \<lparr>arrays = [\<lparr>shape0 = 2, shape1 = 2, data = [[0, 1], [0, 1]]\<rparr>,
                            \<lparr>shape0 = 2, shape1 = 2, data = [[0, 1], [0, 1]]\<rparr>,
                            \<lparr>shape0 = 2, shape1 = 2, data = [[0, 1], [0, 1]]\<rparr>,
                            \<lparr>shape0 = 2, shape1 = 2, data = [[0, 1], [1, 0]]\<rparr>],
      solutions = [\<lparr>MetaModeSolution.n_modes = 2, n_channels = 2, n_metamodes = 2,
                    unpermuted_modes = 0, permuted_modes = Some 1\<rparr>,
                   \<lparr>MetaModeSolution.n_modes = 2, n_channels = 2, n_metamodes = 2,
                    unpermuted_modes = 2, permuted_modes = Some 3\<rparr>]\<rparr>"

text \<open>The store after \<^verbatim>\<open>copy()\<close> of the started Solver's best solution.\<close>

definition ex_copied :: store where
  "ex_copied = \<lparr>arrays = [\<lparr>shape0 = 2, shape1 = 2, data = [[0, 1], [0, 1]]\<rparr>,
                           \<lparr>shape0 = 2, shape1 = 2, data = [[0, 1], [0, 1]]\<rparr>,
                           \<lparr>shape0 = 2, shape1 = 2, data = [[0, 1], [0, 1]]\<rparr>],
      solutions = [\<lparr>MetaModeSolution.n_modes = 2, n_channels = 2, n_metamodes = 2,
                    unpermuted_modes = 0, permuted_modes = Some 1\<rparr>,
                   \<lparr>MetaModeSolution.n_modes = 2, n_channels = 2, n_metamodes = 2,
                    unpermuted_modes = 2, permuted_modes = None\<rparr>]\<rparr>"

text \<open>The identity matrix for two channels with two modes.\<close>

definition ex_identity :: "real ndarray2" where
  "ex_identity = \<lparr>shape0 = 4, shape1 = 4,
     data = [[1, 0, 0, 0], [0, 1, 0, 0], [0, 0, 1, 0], [0, 0, 0, 1]]\<rparr>"

text \<open>Two iterations of \<^verbatim>\<open>solve\<close> on the started Solver: an accepted step, then a tie.\<close>

definition ex_draws :: "nat \<Rightarrow> nat \<times> nat list" where
  "ex_draws k = (if k = 0 then (1, [1, 0]) else (0, [0, 1]))"

definition ex_solved :: MetaModeSolver where
  "ex_solved = \<lparr>problem = ex_problem, best_solution = 1, best_value = 2, iteration = 2,
     record' = [(0, 2)],
     steps = [\<lparr>shape3 = (2, 2, 2), data3 = [[[1, 1/2], [1/2, 1]], [[1, 1/2], [1/2, 1]]]\<rparr>]\<rparr>"

definition ex_final :: store where
  "ex_final = \<lparr>arrays = [\<lparr>shape0 = 2, shape1 = 2, data = [[0, 1], [0, 1]]\<rparr>,
                          \<lparr>shape0 = 2, shape1 = 2, data = [[0, 1], [0, 1]]\<rparr>,
                          \<lparr>shape0 = 2, shape1 = 2, data = [[0, 1], [0, 1]]\<rparr>,
                          \<lparr>shape0 = 2, shape1 = 2, data = [[0, 1], [1, 0]]\<rparr>,
                          \<lparr>shape0 = 2, shape1 = 2, data = [[0, 1], [1, 0]]\<rparr>,
                          \<lparr>shape0 = 2, shape1 = 2, data = [[0, 1], [1, 0]]\<rparr>],
      solutions = [\<lparr>MetaModeSolution.n_modes = 2, n_channels = 2, n_metamodes = 2,
                    unpermuted_modes = 0, permuted_modes = Some 1\<rparr>,
                   \<lparr>MetaModeSolution.n_modes = 2, n_channels = 2, n_metamodes = 2,
                    unpermuted_modes = 2, permuted_modes = Some 3\<rparr>,
                   \<lparr>MetaModeSolution.n_modes = 2, n_channels = 2, n_metamodes = 2,
                    unpermuted_modes = 4, permuted_modes = Some 5\<rparr>]\<rparr>"

section \<open>Basic facts\<close>

lemma and_then_Inl [simp]: "and_then (Inl e) f = Inl e"
  by (simp add: and_then_def)

lemma and_then_Inr [simp]: "and_then (Inr x) f = f x"
  by (simp add: and_then_def)

lemma and_then_eq_Inr: "and_then m f = Inr y \<longleftrightarrow> (\<exists>x. m = Inr x \<and> f x = Inr y)"
  by (cases m) auto

lemma func_DYN_SUM: "func DYN_SUM = Inl (KeyError (undefined_msg DYN_SUM))"
  by (simp add: func_def)

lemma evaluate_func_fails:
  "func (objective prob) = Inl e \<Longrightarrow> Problem_evaluate prob solution h = Inl e"
  by (simp add: Problem_evaluate_def)

lemma Problem_init_Member:
  "Problem_init corr m c (Member ob) =
     Inr \<lparr>correlation_matrix = corr, n_modes = m, n_channels = c, n_metamodes = m,
          objective = ob, reindexer = map (\<lambda>a. a * int m) (arange c)\<rparr>"
  by (simp add: Problem_init_def)

lemma Objective_getitem_member_name: "Objective_getitem (member_name ob) = Inr ob"
  by (cases ob) (simp_all add: Objective_getitem_def)

lemma Objective_getitem_other:
  "name \<notin> set (names ob) \<Longrightarrow> Objective_getitem name = Inl (KeyError name)"
  by (simp add: Objective_getitem_def names_def)

lemma Problem_init_name:
  "Problem_init corr m c (Str (member_name ob)) = Problem_init corr m c (Member ob)"
  by (simp add: Problem_init_def Objective_getitem_member_name)

lemma Solution_random_permutation_cases:
  "Solution_random_permutation picks self h = Inl ValueError \<or>
   (\<exists>r. Solution_random_permutation picks self h = Inr r)"
  by (simp add: Solution_random_permutation_def apply_along_axis1_def split: prod.splits)

lemma Solution_init_None_unpermuted:
  "Solution_init m c None h = (s, h1) \<Longrightarrow>
     s = length (solutions h) \<and>
     h1 = \<lparr>arrays = arrays h @ [tile (arange m) c],
           solutions = solutions h @ [\<lparr>MetaModeSolution.n_modes = m, n_channels = c, n_metamodes = m,
              unpermuted_modes = length (arrays h), permuted_modes = None\<rparr>]\<rparr>"
  by (auto simp: Solution_init_def new_array_def new_solution_def)

section \<open>The DYN\_SUM member\<close>

text \<open>
  Claim C10. The enumeration has a third member \<open>DYN_SUM\<close> for which \<^verbatim>\<open>func\<close> has no
  function. A Problem built with the selector \<^verbatim>\<open>"DYN_SUM"\<close> is constructed; every
  evaluate on a Problem with that objective raises the KeyError of the function lookup,
  whatever the solution; and constructing a Solver with that selector fails, with that
  KeyError as soon as there is a channel (with no channel, \<^verbatim>\<open>random_permutation\<close>
  has already raised).
\<close>

theorem dyn_sum_constructs_but_never_evaluates:
  "Problem_init corr m c (Str ''DYN_SUM'') =
     Inr \<lparr>correlation_matrix = corr, n_modes = m, n_channels = c, n_metamodes = m,
          objective = DYN_SUM, reindexer = map (\<lambda>a. a * int m) (arange c)\<rparr>
   \<and> func DYN_SUM = Inl (KeyError (undefined_msg DYN_SUM))
   \<and> Problem_evaluate (prob\<lparr>objective := DYN_SUM\<rparr>) solution h = Inl (KeyError (undefined_msg DYN_SUM))
   \<and> isl (Solver_init corr m c (Str ''DYN_SUM'') picks h)
   \<and> (0 < c \<longrightarrow> Solver_init corr m c (Str ''DYN_SUM'') picks h = Inl (KeyError (undefined_msg DYN_SUM)))"
proof -
  have name: "''DYN_SUM'' = member_name DYN_SUM" by simp
  have init: "Problem_init corr m c (Str ''DYN_SUM'') =
     Inr \<lparr>correlation_matrix = corr, n_modes = m, n_channels = c, n_metamodes = m,
          objective = DYN_SUM, reindexer = map (\<lambda>a. a * int m) (arange c)\<rparr>"
    unfolding name Problem_init_name by (rule Problem_init_Member)
  have ev: "Problem_evaluate (prob\<lparr>objective := DYN_SUM\<rparr>) solution h = Inl (KeyError (undefined_msg DYN_SUM))" for prob solution h
    by (rule evaluate_func_fails) (simp add: func_DYN_SUM)
  obtain s h1 where s: "Solution_init m c None h = (s, h1)"
    by (cases "Solution_init m c None h")
  have solver: "Solver_init corr m c (Str ''DYN_SUM'') picks h =
     and_then (Solution_random_permutation picks s h1) (\<lambda>(best, h2). Inl (KeyError (undefined_msg DYN_SUM)))"
    by (simp add: Solver_init_def init s evaluate_func_fails func_DYN_SUM)
  have fails: "isl (Solver_init corr m c (Str ''DYN_SUM'') picks h)"
    unfolding solver using Solution_random_permutation_cases [of picks s h1]
    by (auto split: prod.splits)
  have pos: "Solver_init corr m c (Str ''DYN_SUM'') picks h = Inl (KeyError (undefined_msg DYN_SUM))" if "0 < c"
  proof -
    have "shape0 (arrays h1 ! unpermuted_modes (solutions h1 ! s)) = c"
      using Solution_init_None_unpermuted [OF s] by (simp add: nth_append tile_def)
    with that show ?thesis
      unfolding solver
      by (simp add: Solution_random_permutation_def apply_along_axis1_def split: prod.splits)
  qed
  show ?thesis using init ev fails pos by (simp add: func_DYN_SUM)
qed

theorem dyn_sum_constructs_but_never_evaluates_witness:
  "0 < (2::nat) \<and> Solver_init ex_corr 2 2 (Str ''DYN_SUM'') (\<lambda>a. [0, 1]) ex_store
      = Inl (KeyError (undefined_msg DYN_SUM))"
  using dyn_sum_constructs_but_never_evaluates
    [where corr = ex_corr and m = 2 and c = 2 and picks = "\<lambda>a. [0, 1]" and h = ex_store]
  by simp

lemma ex_problem_init: "Problem_init ex_corr 2 2 (Str ''SUM'') = Inr ex_problem"
  by code_simp

lemma ex_fresh_init: "Solution_init 2 2 None ex_store = (0, ex_fresh)"
  by code_simp

section \<open>Objective selection\<close>

lemma Solver_init_fails_with_Problem:
  "Problem_init corr m c sel = Inl e \<Longrightarrow> Solver_init corr m c sel picks h = Inl e"
  by (simp add: Solver_init_def)

lemma Problem_init_unrecognised:
  "name \<notin> set (names ob) \<Longrightarrow> Problem_init corr m c (Str name) = Inl (KeyError name)"
  by (simp add: Problem_init_def Objective_getitem_other)

text \<open>
  Claim C5, as stated, fails. The selector \<^verbatim>\<open>"sum"\<close> (a member's value, not its name)
  is rejected at construction, but the KeyError of the enumeration lookup carries only
  the rejected string, not the valid choices. And the scoring function is not resolved
  at construction: \<open>DYN_SUM\<close> passes construction and the lookup fails inside evaluate.
\<close>

theorem unrecognised_name_counterexample:
  "Problem_init ex_corr 2 2 (Str ''sum'') = Inl (KeyError ''sum'')
   \<and> Solver_init ex_corr 2 2 (Str ''sum'') (\<lambda>a. [0, 1]) ex_store = Inl (KeyError ''sum'')
   \<and> isl (Problem_init ex_corr 2 2 (Member DYN_SUM)) = False
   \<and> Problem_evaluate (projr (Problem_init ex_corr 2 2 (Member DYN_SUM))) 0 ex_store
        = Inl (KeyError (undefined_msg DYN_SUM))"
  by (simp add: Problem_init_unrecognised [of _ SUM'] Solver_init_fails_with_Problem names_def
        Problem_init_Member evaluate_func_fails func_DYN_SUM)

text \<open>
  Claim C5, amended. A string that is not a member name makes the construction of a
  Problem, and of a Solver, fail with the KeyError that carries this string; the Solver
  fails before any Solution is built, and neither object is returned. A member name or
  a member is resolved to the member at construction. The member's scoring function is
  looked up by each evaluate, which fails when the lookup fails.
\<close>

theorem unrecognised_name_fails_at_construction:
  "(name \<notin> set (names ob) \<longrightarrow>
      Problem_init corr m c (Str name) = Inl (KeyError name)
      \<and> Solver_init corr m c (Str name) picks h = Inl (KeyError name))
   \<and> Problem_init corr m c (Str (member_name ob)) =
       Inr \<lparr>correlation_matrix = corr, n_modes = m, n_channels = c, n_metamodes = m,
            objective = ob, reindexer = map (\<lambda>a. a * int m) (arange c)\<rparr>
   \<and> Problem_init corr m c (Member ob) =
       Inr \<lparr>correlation_matrix = corr, n_modes = m, n_channels = c, n_metamodes = m,
            objective = ob, reindexer = map (\<lambda>a. a * int m) (arange c)\<rparr>
   \<and> (func (objective prob) = Inl e \<longrightarrow> Problem_evaluate prob solution h = Inl e)"
  by (simp add: Problem_init_unrecognised Solver_init_fails_with_Problem Problem_init_name
        Problem_init_Member evaluate_func_fails)

theorem unrecognised_name_fails_at_construction_witness:
  "''abs'' \<notin> set (names ABS_SUM)
   \<and> Problem_init ex_corr 2 2 (Str ''abs'') = Inl (KeyError ''abs'')
   \<and> Solver_init ex_corr 2 2 (Str ''abs'') (\<lambda>a. [0, 1]) ex_store = Inl (KeyError ''abs'')
   \<and> func (objective (ex_problem\<lparr>objective := DYN_SUM\<rparr>)) = Inl (KeyError (undefined_msg DYN_SUM))
   \<and> Problem_evaluate (ex_problem\<lparr>objective := DYN_SUM\<rparr>) 0 ex_store
        = Inl (KeyError (undefined_msg DYN_SUM))"
  using unrecognised_name_fails_at_construction
    [where name = "''abs''" and ob = ABS_SUM and corr = ex_corr and m = 2 and c = 2
       and picks = "\<lambda>a. [0, 1]" and h = ex_store and solution = 0
       and e = "KeyError (undefined_msg DYN_SUM)"
       and prob = "ex_problem\<lparr>objective := DYN_SUM\<rparr>"]
  by (simp add: names_def func_def)

section \<open>Evaluating before a permutation is set\<close>

lemma global_indices_unset:
  "permuted_modes (solutions h ! solution) = None \<Longrightarrow> global_indices prob solution h = Inl TypeError"
  by (simp add: global_indices_def)

text \<open>
  Claim C7, as stated, fails. \<^verbatim>\<open>evaluate\<close> has no validation: on a freshly
  constructed Solution the error is the TypeError of the addition
  \<^verbatim>\<open>None + reindexer[:, None]\<close> in the numeric layer.
\<close>

theorem evaluate_unset_counterexample:
  "Problem_init ex_corr 2 2 (Str ''SUM'') = Inr ex_problem
   \<and> Solution_init 2 2 None ex_store = (0, ex_fresh)
   \<and> Problem_evaluate ex_problem 0 ex_fresh = Inl TypeError"
  by (simp add: ex_problem_init ex_fresh_init Problem_evaluate_def func_def global_indices_def
        ex_problem_def ex_fresh_def)

text \<open>
  Claim C7, amended. On a Solution whose \<open>permuted_modes\<close> is unset, evaluate fails
  without any check of its own: the lookup of the scoring function comes first (KeyError
  for \<open>DYN_SUM\<close>), then the addition of the re-indexer to \<^verbatim>\<open>None\<close> raises TypeError,
  before the scoring function is called; \<^verbatim>\<open>generate\<close> fails in the same addition.
  The statement is for a Problem with at least one channel: with an empty re-indexer
  numpy has no element to add, and the failure only comes from the next numeric call.
\<close>

theorem evaluate_unset_fails_in_addition:
  assumes "permuted_modes (solutions h ! solution) = None" and "reindexer prob \<noteq> []"
  shows "Problem_evaluate prob solution h =
           (if objective prob = DYN_SUM then Inl (KeyError (undefined_msg DYN_SUM)) else Inl TypeError)
    \<and> Problem_generate prob solution h = Inl TypeError"
  using assms(1)
  by (cases "objective prob")
     (simp_all add: Problem_evaluate_def Problem_generate_def func_def global_indices_unset)

theorem evaluate_unset_fails_in_addition_witness:
  "permuted_modes (solutions ex_fresh ! 0) = None \<and> reindexer ex_problem \<noteq> []
   \<and> Problem_evaluate ex_problem 0 ex_fresh = Inl TypeError
   \<and> Problem_generate ex_problem 0 ex_fresh = Inl TypeError"
  using evaluate_unset_fails_in_addition [of ex_fresh 0 ex_problem]
  by (simp add: ex_problem_def ex_fresh_def)

section \<open>The channel index of permute\_one\_channel\<close>

lemma Solution_permute_one_channel_eq:
  assumes "self < length (solutions h)"
  shows "Solution_permute_one_channel channel pick self h =
     and_then (setitem_row (arrays h ! unpermuted_modes (solutions h ! self)) channel
                 (rng_permutation pick (arange (MetaModeSolution.n_modes (solutions h ! self)))))
       (\<lambda>A. Inr (self, \<lparr>arrays = arrays h @ [A],
                         solutions = (solutions h)[self := (solutions h ! self)\<lparr>permuted_modes := Some (length (arrays h))\<rparr>]\<rparr>))"
  using assms
  by (cases h) (simp add: Solution_permute_one_channel_def new_array_def set_permuted_modes_def Let_def)

text \<open>
  Claim C8, as stated, fails on negative indices: on a default Solution with two
  channels, \<^verbatim>\<open>permute_one_channel(-1)\<close> raises nothing and replaces the last row.
\<close>

theorem permute_one_channel_negative_counterexample:
  "Solution_init 2 2 None ex_store = (0, ex_fresh)
   \<and> Solution_permute_one_channel (- 1) [1, 0] 0 ex_fresh
     = Inr (0, \<lparr>arrays = [\<lparr>shape0 = 2, shape1 = 2, data = [[0, 1], [0, 1]]\<rparr>,
                          \<lparr>shape0 = 2, shape1 = 2, data = [[0, 1], [1, 0]]\<rparr>],
                solutions = [\<lparr>MetaModeSolution.n_modes = 2, n_channels = 2, n_metamodes = 2,
                              unpermuted_modes = 0, permuted_modes = Some 1\<rparr>]\<rparr>)"
  by code_simp

text \<open>
  Claim C8, amended. On a Solution whose \<open>unpermuted_modes\<close> has \<open>n_channels\<close> rows of
  \<open>n_modes\<close> entries, \<^verbatim>\<open>permute_one_channel(channel)\<close> raises IndexError exactly when
  \<open>channel < -n_channels\<close> or \<open>channel \<ge> n_channels\<close>. Otherwise it succeeds:
  \<open>permuted_modes\<close> becomes a new array, the copy of \<open>unpermuted_modes\<close> in which exactly
  one row is replaced by the drawn permutation of \<open>0..n_modes-1\<close>: row \<open>channel\<close> when
  \<open>0 \<le> channel\<close>, and row \<open>channel + n_channels\<close> when \<open>channel\<close> is negative.
\<close>

theorem permute_one_channel_bounds:
  assumes "self < length (solutions h)"
    and "S = solutions h ! self"
    and "U = arrays h ! unpermuted_modes S"
    and "shape0 U = MetaModeSolution.n_channels S"
    and "shape1 U = MetaModeSolution.n_modes S"
    and "length pick = MetaModeSolution.n_modes S"
  shows "Solution_permute_one_channel channel pick self h =
     (if channel < - int (MetaModeSolution.n_channels S) \<or> int (MetaModeSolution.n_channels S) \<le> channel
      then Inl IndexError
      else Inr (self,
        \<lparr>arrays = arrays h @
           [U\<lparr>data := (data U)
                [(if channel < 0 then nat (channel + int (MetaModeSolution.n_channels S)) else nat channel)
                   := rng_permutation pick (arange (MetaModeSolution.n_modes S))]\<rparr>],
         solutions = (solutions h)[self := S\<lparr>permuted_modes := Some (length (arrays h))\<rparr>]\<rparr>))"
  using assms
  by (auto simp: Solution_permute_one_channel_eq setitem_row_def in_bounds_def wrap_def
        rng_permutation_def)

theorem permute_one_channel_bounds_witness:
  "Solution_permute_one_channel 1 [1, 0] 0 ex_fresh
     = Inr (0, \<lparr>arrays = [\<lparr>shape0 = 2, shape1 = 2, data = [[0, 1], [0, 1]]\<rparr>,
                          \<lparr>shape0 = 2, shape1 = 2, data = [[0, 1], [1, 0]]\<rparr>],
                solutions = [\<lparr>MetaModeSolution.n_modes = 2, n_channels = 2, n_metamodes = 2,
                              unpermuted_modes = 0, permuted_modes = Some 1\<rparr>]\<rparr>)
   \<and> Solution_permute_one_channel 2 [1, 0] 0 ex_fresh = Inl IndexError"
  using permute_one_channel_bounds [where self = 0 and channel = 1 and pick = "[1, 0]"
          and h = ex_fresh, OF _ refl refl]
    permute_one_channel_bounds [where self = 0 and channel = 2 and pick = "[1, 0]"
          and h = ex_fresh, OF _ refl refl]
  by (simp add: rng_permutation_def arange_def ex_fresh_def)

section \<open>Greedy acceptance\<close>

lemma ex_solver_init:
  "Solver_init ex_corr 2 2 (Str ''SUM'') (\<lambda>a. [0, 1]) ex_store = Inr (ex_solver, ex_started)"
  by code_simp

lemma ex_solver_value: "best_value ex_solver = 0"
  by (simp add: ex_solver_def)

lemma ex_solver_step:
  "Solver_step (1, [1, 0]) ex_solver ex_started
     = Inr (True, ex_solver\<lparr>best_solution := 1, best_value := 2\<rparr>, ex_stepped)"
  by code_simp

lemma ex_solver_tie:
  "Solver_step (0, [0, 1]) (ex_solver\<lparr>best_solution := 1, best_value := 2\<rparr>) ex_stepped
     = Inr (False, ex_solver\<lparr>best_solution := 1, best_value := 2\<rparr>,
            \<lparr>arrays = arrays ex_stepped @ [\<lparr>shape0 = 2, shape1 = 2, data = [[0, 1], [1, 0]]\<rparr>,
                                           \<lparr>shape0 = 2, shape1 = 2, data = [[0, 1], [1, 0]]\<rparr>],
             solutions = solutions ex_stepped @ [\<lparr>MetaModeSolution.n_modes = 2, n_channels = 2, n_metamodes = 2,
                    unpermuted_modes = 4, permuted_modes = Some 5\<rparr>]\<rparr>)"
  by code_simp

lemma ex_solver_steps:
  "Solver_steps [(1, [1, 0]), (0, [0, 1])] ex_solver ex_started
     = Inr (ex_solver\<lparr>best_solution := 1, best_value := 2\<rparr>,
            \<lparr>arrays = arrays ex_stepped @ [\<lparr>shape0 = 2, shape1 = 2, data = [[0, 1], [1, 0]]\<rparr>,
                                           \<lparr>shape0 = 2, shape1 = 2, data = [[0, 1], [1, 0]]\<rparr>],
             solutions = solutions ex_stepped @ [\<lparr>MetaModeSolution.n_modes = 2, n_channels = 2, n_metamodes = 2,
                    unpermuted_modes = 4, permuted_modes = Some 5\<rparr>]\<rparr>)"
  by (simp add: ex_solver_step ex_solver_tie del: One_nat_def)

lemma Solver_step_cases:
  assumes "Solver_step d self h = Inr (accepted, self', h')"
  obtains solution h1 r v where
    "Solution_copy (best_solution self) h = Inr (solution, h1)"
    "Solution_step d solution h1 = Inr (r, h')"
    "Problem_evaluate (problem self) solution h' = Inr v"
    "accepted \<longleftrightarrow> v > best_value self"
    "accepted \<Longrightarrow> self' = self\<lparr>best_solution := solution, best_value := v\<rparr>"
    "\<not> accepted \<Longrightarrow> self' = self"
  using assms unfolding Solver_step_def
  by (auto simp: and_then_eq_Inr split: if_splits)

lemma Solver_step_mono:
  assumes "Solver_step d self h = Inr (accepted, self', h')"
  shows "best_value self \<le> best_value self'"
  using assms by (rule Solver_step_cases) (cases accepted; simp)

lemma Solver_steps_mono:
  "Solver_steps ds self h = Inr (self', h') \<Longrightarrow> best_value self \<le> best_value self'"
proof (induction ds arbitrary: self h)
  case Nil
  then show ?case by simp
next
  case (Cons d ds)
  then obtain accepted self1 h1 where
    1: "Solver_step d self h = Inr (accepted, self1, h1)" and
    2: "Solver_steps ds self1 h1 = Inr (self', h')"
    by (auto simp: and_then_eq_Inr)
  from Solver_step_mono [OF 1] Cons.IH [OF 2] show ?case by simp
qed


text \<open>
  Claim C1. A call of \<^verbatim>\<open>Solver.step()\<close> that returns has copied the best solution,
  mutated the copy and evaluated it; it returns true exactly when the candidate's value
  is strictly greater than \<open>best_value\<close> (a tie is rejected), and then the candidate and
  its value replace \<open>best_solution\<close> and \<open>best_value\<close>; otherwise the Solver is
  unchanged. So \<open>best_value\<close> never decreases, over one call and over any sequence of
  calls.
\<close>

theorem step_accepts_iff_strictly_better:
  "(Solver_step d self h = Inr (accepted, self', h') \<longrightarrow>
      (\<exists>solution h1 r value.
          Solution_copy (best_solution self) h = Inr (solution, h1)
        \<and> Solution_step d solution h1 = Inr (r, h')
        \<and> Problem_evaluate (problem self) solution h' = Inr value
        \<and> (accepted \<longleftrightarrow> value > best_value self)
        \<and> (accepted \<longrightarrow> self' = self\<lparr>best_solution := solution, best_value := value\<rparr>)
        \<and> (\<not> accepted \<longrightarrow> self' = self))
      \<and> best_value self \<le> best_value self')
   \<and> (Solver_steps ds self h = Inr (self'', h'') \<longrightarrow> best_value self \<le> best_value self'')"
proof (intro conjI impI)
  assume a: "Solver_step d self h = Inr (accepted, self', h')"
  from a show "\<exists>solution h1 r value.
          Solution_copy (best_solution self) h = Inr (solution, h1)
        \<and> Solution_step d solution h1 = Inr (r, h')
        \<and> Problem_evaluate (problem self) solution h' = Inr value
        \<and> (accepted \<longleftrightarrow> value > best_value self)
        \<and> (accepted \<longrightarrow> self' = self\<lparr>best_solution := solution, best_value := value\<rparr>)
        \<and> (\<not> accepted \<longrightarrow> self' = self)"
    by (rule Solver_step_cases) blast
  from a show "best_value self \<le> best_value self'" by (rule Solver_step_mono)
next
  assume "Solver_steps ds self h = Inr (self'', h'')"
  then show "best_value self \<le> best_value self''" by (rule Solver_steps_mono)
qed

theorem step_accepts_iff_strictly_better_witness:
  "Solver_step (1, [1, 0]) ex_solver ex_started
     = Inr (True, ex_solver\<lparr>best_solution := 1, best_value := 2\<rparr>, ex_stepped)
   \<and> best_value ex_solver < 2
   \<and> Solver_steps [(1, [1, 0]), (0, [0, 1])] ex_solver ex_started
     = Inr (ex_solver\<lparr>best_solution := 1, best_value := 2\<rparr>,
            \<lparr>arrays = arrays ex_stepped @ [\<lparr>shape0 = 2, shape1 = 2, data = [[0, 1], [1, 0]]\<rparr>,
                                           \<lparr>shape0 = 2, shape1 = 2, data = [[0, 1], [1, 0]]\<rparr>],
             solutions = solutions ex_stepped @ [\<lparr>MetaModeSolution.n_modes = 2, n_channels = 2, n_metamodes = 2,
                    unpermuted_modes = 4, permuted_modes = Some 5\<rparr>]\<rparr>)
   \<and> best_value ex_solver \<le> best_value (ex_solver\<lparr>best_solution := 1, best_value := 2\<rparr>)"
  using step_accepts_iff_strictly_better
    [where d = "(1, [1, 0])" and self = ex_solver and h = ex_started and accepted = True
       and self' = "ex_solver\<lparr>best_solution := 1, best_value := 2\<rparr>" and h' = ex_stepped
       and ds = "[(1, [1, 0]), (0, [0, 1])]"
       and self'' = "ex_solver\<lparr>best_solution := 1, best_value := 2\<rparr>"
       and h'' = "\<lparr>arrays = arrays ex_stepped @ [\<lparr>shape0 = 2, shape1 = 2, data = [[0, 1], [1, 0]]\<rparr>,
                                           \<lparr>shape0 = 2, shape1 = 2, data = [[0, 1], [1, 0]]\<rparr>],
             solutions = solutions ex_stepped @ [\<lparr>MetaModeSolution.n_modes = 2, n_channels = 2, n_metamodes = 2,
                    unpermuted_modes = 4, permuted_modes = Some 5\<rparr>]\<rparr>"]
  by (simp add: ex_solver_step ex_solver_steps ex_solver_value del: One_nat_def Solver_steps.simps)

section \<open>Tables and the store\<close>

lemma mset_rng_permutation:
  assumes "shuffle_of (length x) pick"
  shows "mset (rng_permutation pick x) = mset x"
proof -
  have "mset (rng_permutation pick x) = image_mset ((!) x) (mset pick)"
    by (simp add: rng_permutation_def)
  also have "\<dots> = image_mset ((!) x) (mset [0..<length x])"
    using assms by (simp add: shuffle_of_def)
  also have "\<dots> = mset (map ((!) x) [0..<length x])"
    by simp
  also have "\<dots> = mset x"
    by (simp add: map_nth)
  finally show ?thesis .
qed

lemma length_arange [simp]: "length (arange n) = n"
  by (simp add: arange_def)

lemma length_rng_permutation [simp]: "length (rng_permutation pick x) = length pick"
  by (simp add: rng_permutation_def)

lemma shuffle_of_length: "shuffle_of n pick \<Longrightarrow> length pick = n"
  unfolding shuffle_of_def by (metis length_upt mset_eq_length diff_zero)

lemma perm_table_tile: "perm_table m c (tile (arange m) c)"
  by (simp add: perm_table_def tile_def wf2_def)

lemma perm_table_row_length:
  "perm_table m c A \<Longrightarrow> r \<in> set (data A) \<Longrightarrow> length r = m"
  by (simp add: perm_table_def wf2_def)

lemma perm_table_valid: "perm_table m c A \<Longrightarrow> valid_table m c A"
proof -
  assume a: "perm_table m c A"
  have "0 \<le> x \<and> x < int m" if "r \<in> set (data A)" "x \<in> set r" for r x
  proof -
    have "mset r = mset (arange m)" using a that(1) by (simp add: perm_table_def)
    then have "set r = set (arange m)" by (rule mset_eq_setD)
    with that(2) show ?thesis by (auto simp: arange_def)
  qed
  with a show ?thesis by (simp add: perm_table_def valid_table_def)
qed

lemma apply_along_axis1_shuffles:
  assumes "perm_table m c A" and "0 < c" and "\<forall>a < c. shuffle_of m (picks a)"
  shows "\<exists>A'. apply_along_axis1 (\<lambda>a. rng_permutation (picks a)) A = Inr A' \<and> perm_table m c A'"
proof -
  have sh: "shape0 A = c" "shape1 A = m" "length (data A) = c"
    using assms(1) by (simp_all add: perm_table_def wf2_def)
  have rows: "mset (rng_permutation (picks a) (data A ! a)) = mset (arange m)" if "a < c" for a
  proof -
    have r: "data A ! a \<in> set (data A)" using that sh by simp
    then have "length (data A ! a) = m" using assms(1) by (rule perm_table_row_length[rotated])
    then have "mset (rng_permutation (picks a) (data A ! a)) = mset (data A ! a)"
      using assms(3) that by (simp add: mset_rng_permutation)
    also have "\<dots> = mset (arange m)" using assms(1) r by (simp add: perm_table_def)
    finally show ?thesis .
  qed
  have len0: "length (picks 0) = m"
    using assms(2,3) by (simp add: shuffle_of_length)
  let ?A' = "\<lparr>shape0 = c, shape1 = length (rng_permutation (picks 0) (data A ! 0)),
               data = map (\<lambda>a. rng_permutation (picks a) (data A ! a)) [0..<c]\<rparr>"
  have "apply_along_axis1 (\<lambda>a. rng_permutation (picks a)) A = Inr ?A'"
    using assms(2) sh by (simp add: apply_along_axis1_def)
  moreover have "perm_table m c ?A'"
    using rows len0 assms(3) by (auto simp: perm_table_def wf2_def shuffle_of_length)
  ultimately show ?thesis by blast
qed

lemma setitem_row_perm:
  assumes "perm_table m c A" and "in_bounds c i" and "mset v = mset (arange m)"
  shows "\<exists>A'. setitem_row A i v = Inr A' \<and> perm_table m c A'
           \<and> A' = A\<lparr>data := (data A)[wrap c i := v]\<rparr>"
proof -
  have sh: "shape0 A = c" "shape1 A = m" "length (data A) = c"
    using assms(1) by (simp_all add: perm_table_def wf2_def)
  have lv: "length v = m" using assms(3) by (metis length_arange mset_eq_length)
  have "setitem_row A i v = Inr (A\<lparr>data := (data A)[wrap c i := v]\<rparr>)"
    using assms(2) sh lv by (simp add: setitem_row_def)
  moreover have "perm_table m c (A\<lparr>data := (data A)[wrap c i := v]\<rparr>)"
    using assms(1,3) lv
    by (auto simp: perm_table_def wf2_def dest!: set_update_subset_insert [THEN subsetD])
  ultimately show ?thesis by blast
qed

lemma Solution_random_permutation_eq:
  assumes "self < length (solutions h)"
  shows "Solution_random_permutation picks self h =
     and_then (apply_along_axis1 (\<lambda>a. rng_permutation (picks a))
                 (arrays h ! unpermuted_modes (solutions h ! self)))
       (\<lambda>A. Inr (self, \<lparr>arrays = arrays h @ [A],
                         solutions = (solutions h)[self := (solutions h ! self)\<lparr>permuted_modes := Some (length (arrays h))\<rparr>]\<rparr>))"
  using assms
  by (cases h) (simp add: Solution_random_permutation_def new_array_def set_permuted_modes_def)

lemma Solution_copy_eq:
  assumes "permuted_modes (solutions h ! self) = Some p"
  shows "Solution_copy self h =
     Inr (length (solutions h),
          \<lparr>arrays = arrays h @ [arrays h ! p],
           solutions = solutions h @
             [\<lparr>MetaModeSolution.n_modes = MetaModeSolution.n_modes (solutions h ! self),
               n_channels = MetaModeSolution.n_channels (solutions h ! self),
               n_metamodes = MetaModeSolution.n_modes (solutions h ! self),
               unpermuted_modes = length (arrays h), permuted_modes = None\<rparr>]\<rparr>)"
  using assms
  by (cases h) (simp add: Solution_copy_def Solution_init_def new_array_def new_solution_def)

lemma Solution_copy_unset:
  "permuted_modes (solutions h ! self) = None \<Longrightarrow> Solution_copy self h = Inl AttributeError"
  by (simp add: Solution_copy_def)

lemma Solution_step_eq:
  "Solution_step d self h =
     (if MetaModeSolution.n_channels (solutions h ! self) = 0 then Inl ValueError
      else Solution_permute_one_channel (int (fst d)) (snd d) self h)"
  by (simp add: Solution_step_def rng_integers_def)

lemma untouched_refl: "untouched h h"
  by (simp add: untouched_def)

lemma untouched_trans: "untouched h h1 \<Longrightarrow> untouched h1 h2 \<Longrightarrow> untouched h h2"
  unfolding untouched_def
  by (metis min.absorb1 nat_le_linear take_all take_take length_take min.cobounded1)

lemma untouched_nth:
  assumes "untouched h h'"
  shows "a < length (arrays h) \<Longrightarrow> arrays h' ! a = arrays h ! a"
    and "s < length (solutions h) \<Longrightarrow> solutions h' ! s = solutions h ! s"
    and "length (arrays h) \<le> length (arrays h')"
    and "length (solutions h) \<le> length (solutions h')"
proof -
  from assms have a: "take (length (arrays h)) (arrays h') = arrays h"
    and s: "take (length (solutions h)) (solutions h') = solutions h"
    by (simp_all add: untouched_def)
  show "a < length (arrays h) \<Longrightarrow> arrays h' ! a = arrays h ! a"
    by (metis a nth_take)
  show "s < length (solutions h) \<Longrightarrow> solutions h' ! s = solutions h ! s"
    by (metis s nth_take)
  have "length (take (length (arrays h)) (arrays h')) = length (arrays h)"
    using a by simp
  then show "length (arrays h) \<le> length (arrays h')"
    by simp
  have "length (take (length (solutions h)) (solutions h')) = length (solutions h)"
    using s by simp
  then show "length (solutions h) \<le> length (solutions h')"
    by simp
qed

text \<open>A method called on a fresh object leaves everything older than the object untouched.\<close>

lemma permute_one_channel_untouched:
  assumes "Solution_permute_one_channel channel pick self h1 = Inr (r, h2)"
    and "self < length (solutions h1)"
    and "length (solutions h) \<le> self" and "untouched h h1"
  shows "untouched h h2 \<and> r = self"
proof -
  from assms(1,2) obtain A where
    h2: "h2 = \<lparr>arrays = arrays h1 @ [A],
               solutions = (solutions h1)[self := (solutions h1 ! self)\<lparr>permuted_modes := Some (length (arrays h1))\<rparr>]\<rparr>"
    and r: "r = self"
    by (auto simp: Solution_permute_one_channel_eq and_then_eq_Inr)
  from assms(4) have a: "take (length (arrays h)) (arrays h1) = arrays h"
    and s: "take (length (solutions h)) (solutions h1) = solutions h"
    by (simp_all add: untouched_def)
  have la: "length (arrays h) \<le> length (arrays h1)"
    using untouched_nth(3) [OF assms(4)] .
  show ?thesis
    using a s la assms(3) r by (simp add: untouched_def h2)
qed

lemma random_permutation_untouched:
  assumes "Solution_random_permutation picks self h1 = Inr (r, h2)"
    and "self < length (solutions h1)"
    and "length (solutions h) \<le> self" and "untouched h h1"
  shows "untouched h h2 \<and> r = self"
proof -
  from assms(1,2) obtain A where
    h2: "h2 = \<lparr>arrays = arrays h1 @ [A],
               solutions = (solutions h1)[self := (solutions h1 ! self)\<lparr>permuted_modes := Some (length (arrays h1))\<rparr>]\<rparr>"
    and r: "r = self"
    by (auto simp: Solution_random_permutation_eq and_then_eq_Inr)
  from assms(4) have a: "take (length (arrays h)) (arrays h1) = arrays h"
    and s: "take (length (solutions h)) (solutions h1) = solutions h"
    by (simp_all add: untouched_def)
  have la: "length (arrays h) \<le> length (arrays h1)"
    using untouched_nth(3) [OF assms(4)] .
  show ?thesis
    using a s la assms(3) r by (simp add: untouched_def h2)
qed

lemma step_untouched:
  assumes "Solution_step d self h1 = Inr (r, h2)"
    and "self < length (solutions h1)"
    and "length (solutions h) \<le> self" and "untouched h h1"
  shows "untouched h h2 \<and> r = self"
  using assms permute_one_channel_untouched [of "int (fst d)" "snd d" self h1 r h2 h]
  by (simp add: Solution_step_eq split: if_splits)

lemma copy_untouched:
  assumes "Solution_copy self h = Inr (c, h1)"
  shows "untouched h h1 \<and> c = length (solutions h) \<and> c < length (solutions h1)"
proof (cases "permuted_modes (solutions h ! self)")
  case None
  with assms show ?thesis by (simp add: Solution_copy_unset)
next
  case (Some p)
  with assms show ?thesis by (auto simp: Solution_copy_eq untouched_def)
qed


section \<open>Copies\<close>

lemma ex_copy: "Solution_copy 0 ex_started = Inr (1, ex_copied)"
  by code_simp

lemma ex_copy_step: "Solution_step (1, [1, 0]) 1 ex_copied = Inr (1, ex_stepped)"
  by code_simp


text \<open>
  Claim C4, as stated, fails in one part: the copy's \<open>permuted_modes\<close> is not a deep
  copy of the parent's, it is unset, because the constructor always starts with
  \<^verbatim>\<open>permuted_modes = None\<close>.
\<close>

theorem copy_permuted_modes_counterexample:
  "Solution_copy 0 ex_started = Inr (1, ex_copied)
   \<and> permuted_modes (solutions ex_started ! 0) = Some 1
   \<and> permuted_modes (solutions ex_copied ! 1) = None"
  by (simp add: ex_copy) (simp add: ex_started_def ex_copied_def)


text \<open>
  Claim C4, amended. For a Solution whose \<open>permuted_modes\<close> is set, \<^verbatim>\<open>copy()\<close>
  returns a new Solution object whose \<open>unpermuted_modes\<close> is a new array equal to the
  parent's current \<open>permuted_modes\<close> and whose \<open>permuted_modes\<close> is unset; on an unset
  parent it raises AttributeError. The copy is independent of the parent: after
  \<^verbatim>\<open>step()\<close>, \<^verbatim>\<open>permute_one_channel\<close> or \<^verbatim>\<open>random_permutation\<close> on the
  copy, every Solution object and every array that existed before the copy, the parent
  and its two tables among them, is unchanged.
\<close>

theorem copy_is_independent:
  "(permuted_modes (solutions h ! self) = Some p \<longrightarrow>
      Solution_copy self h =
        Inr (length (solutions h),
             \<lparr>arrays = arrays h @ [arrays h ! p],
              solutions = solutions h @
                [\<lparr>MetaModeSolution.n_modes = MetaModeSolution.n_modes (solutions h ! self),
                  n_channels = MetaModeSolution.n_channels (solutions h ! self),
                  n_metamodes = MetaModeSolution.n_modes (solutions h ! self),
                  unpermuted_modes = length (arrays h), permuted_modes = None\<rparr>]\<rparr>))
   \<and> (permuted_modes (solutions h ! self) = None \<longrightarrow> Solution_copy self h = Inl AttributeError)
   \<and> (Solution_copy self h = Inr (c, h1) \<and>
        (Solution_step d c h1 = Inr (r, h2)
         \<or> Solution_permute_one_channel channel pick c h1 = Inr (r, h2)
         \<or> Solution_random_permutation picks c h1 = Inr (r, h2)) \<longrightarrow>
        untouched h h2
        \<and> (\<forall>s < length (solutions h). solutions h2 ! s = solutions h ! s)
        \<and> (\<forall>a < length (arrays h). arrays h2 ! a = arrays h ! a))"
proof (intro conjI impI)
  assume "permuted_modes (solutions h ! self) = Some p"
  then show "Solution_copy self h =
        Inr (length (solutions h),
             \<lparr>arrays = arrays h @ [arrays h ! p],
              solutions = solutions h @
                [\<lparr>MetaModeSolution.n_modes = MetaModeSolution.n_modes (solutions h ! self),
                  n_channels = MetaModeSolution.n_channels (solutions h ! self),
                  n_metamodes = MetaModeSolution.n_modes (solutions h ! self),
                  unpermuted_modes = length (arrays h), permuted_modes = None\<rparr>]\<rparr>)"
    by (rule Solution_copy_eq)
next
  assume "permuted_modes (solutions h ! self) = None"
  then show "Solution_copy self h = Inl AttributeError"
    by (rule Solution_copy_unset)
next
  assume a: "Solution_copy self h = Inr (c, h1) \<and>
        (Solution_step d c h1 = Inr (r, h2)
         \<or> Solution_permute_one_channel channel pick c h1 = Inr (r, h2)
         \<or> Solution_random_permutation picks c h1 = Inr (r, h2))"
  then have c: "untouched h h1" "length (solutions h) \<le> c" "c < length (solutions h1)"
    using copy_untouched [of self h c h1] by simp_all
  from a consider "Solution_step d c h1 = Inr (r, h2)"
    | "Solution_permute_one_channel channel pick c h1 = Inr (r, h2)"
    | "Solution_random_permutation picks c h1 = Inr (r, h2)"
    by blast
  then show u: "untouched h h2"
  proof cases
    case 1
    then show ?thesis using step_untouched c by blast
  next
    case 2
    then show ?thesis using permute_one_channel_untouched c by blast
  next
    case 3
    then show ?thesis using random_permutation_untouched c by blast
  qed
  show "\<forall>s < length (solutions h). solutions h2 ! s = solutions h ! s"
    using untouched_nth(2) [OF u] by blast
  show "\<forall>a < length (arrays h). arrays h2 ! a = arrays h ! a"
    using untouched_nth(1) [OF u] by blast
qed

theorem copy_is_independent_witness:
  "permuted_modes (solutions ex_started ! 0) = Some 1
   \<and> Solution_copy 0 ex_started = Inr (1, ex_copied)
   \<and> Solution_step (1, [1, 0]) 1 ex_copied = Inr (1, ex_stepped)
   \<and> untouched ex_started ex_stepped
   \<and> solutions ex_stepped ! 0 = solutions ex_started ! 0
   \<and> arrays ex_stepped ! 0 = arrays ex_started ! 0
   \<and> arrays ex_stepped ! 1 = arrays ex_started ! 1"
proof -
  have p: "permuted_modes (solutions ex_started ! 0) = Some 1"
    by (simp add: ex_started_def)
  have l: "(0::nat) < length (solutions ex_started)" "(0::nat) < length (arrays ex_started)"
    "(1::nat) < length (arrays ex_started)"
    by (simp_all add: ex_started_def)
  from copy_is_independent
    [where h = ex_started and self = 0 and p = 1 and c = 1 and ?h1.0 = ex_copied
       and d = "(1, [1, 0])" and r = 1 and ?h2.0 = ex_stepped]
    p l ex_copy ex_copy_step
  show ?thesis
    by (simp del: One_nat_def)
qed

section \<open>Permutation tables are preserved\<close>

lemma mset_arange_pick:
  "shuffle_of m pick \<Longrightarrow> mset (rng_permutation pick (arange m)) = mset (arange m)"
  by (simp add: mset_rng_permutation)

lemma Solution_init_default_ok:
  "Solution_init m c None h = (s, h1) \<Longrightarrow> unpermuted_ok m c s h1 \<and> untouched h h1"
  by (drule Solution_init_None_unpermuted)
     (simp add: unpermuted_ok_def untouched_def nth_append perm_table_tile)

lemma permuted_ok_untouched:
  assumes "permuted_ok m c s h" and "untouched h h'"
  shows "permuted_ok m c s h'"
proof -
  from assms(1) obtain p where
    s: "s < length (solutions h)" and p: "permuted_modes (solutions h ! s) = Some p"
    and pl: "p < length (arrays h)"
    by (auto simp: permuted_ok_def split: option.splits)
  have "solutions h' ! s = solutions h ! s" "arrays h' ! p = arrays h ! p"
    "length (solutions h) \<le> length (solutions h')" "length (arrays h) \<le> length (arrays h')"
    using untouched_nth [OF assms(2)] s pl by simp_all
  with assms(1) s p pl show ?thesis
    by (simp add: permuted_ok_def)
qed

lemma unpermuted_ok_untouched:
  assumes "unpermuted_ok m c s h" and "untouched h h'"
  shows "unpermuted_ok m c s h'"
proof -
  from assms(1) have
    s: "s < length (solutions h)" and pl: "unpermuted_modes (solutions h ! s) < length (arrays h)"
    by (auto simp: unpermuted_ok_def)
  have "solutions h' ! s = solutions h ! s"
    "arrays h' ! unpermuted_modes (solutions h ! s) = arrays h ! unpermuted_modes (solutions h ! s)"
    "length (solutions h) \<le> length (solutions h')" "length (arrays h) \<le> length (arrays h')"
    using untouched_nth [OF assms(2)] s pl by simp_all
  with assms(1) s pl show ?thesis
    by (simp add: unpermuted_ok_def)
qed

text \<open>Setting \<open>permuted_modes\<close> of an object to a new permutation table.\<close>

lemma set_new_permuted_ok:
  assumes "unpermuted_ok m c s h" and "perm_table m c A"
    and "h' = \<lparr>arrays = arrays h @ [A],
               solutions = (solutions h)[s := (solutions h ! s)\<lparr>permuted_modes := Some (length (arrays h))\<rparr>]\<rparr>"
  shows "permuted_ok m c s h' \<and> unpermuted_ok m c s h'"
  using assms by (simp add: permuted_ok_def unpermuted_ok_def nth_append)

lemma random_permutation_ok:
  assumes "unpermuted_ok m c s h" and "0 < c" and "\<forall>a < c. shuffle_of m (picks a)"
  shows "\<exists>h'. Solution_random_permutation picks s h = Inr (s, h')
           \<and> permuted_ok m c s h' \<and> unpermuted_ok m c s h'"
proof -
  from assms(1) have s: "s < length (solutions h)"
    and U: "perm_table m c (arrays h ! unpermuted_modes (solutions h ! s))"
    by (simp_all add: unpermuted_ok_def)
  from apply_along_axis1_shuffles [OF U assms(2,3)] obtain A where
    A: "apply_along_axis1 (\<lambda>a. rng_permutation (picks a))
          (arrays h ! unpermuted_modes (solutions h ! s)) = Inr A" "perm_table m c A"
    by blast
  let ?h' = "\<lparr>arrays = arrays h @ [A],
               solutions = (solutions h)[s := (solutions h ! s)\<lparr>permuted_modes := Some (length (arrays h))\<rparr>]\<rparr>"
  have "Solution_random_permutation picks s h = Inr (s, ?h')"
    by (simp add: Solution_random_permutation_eq [OF s] A(1))
  moreover have "permuted_ok m c s ?h' \<and> unpermuted_ok m c s ?h'"
    using assms(1) A(2) by (rule set_new_permuted_ok) simp
  ultimately show ?thesis by blast
qed

lemma random_permutation_no_channel:
  assumes "unpermuted_ok m 0 s h"
  shows "Solution_random_permutation picks s h = Inl ValueError"
  using assms
  by (simp add: Solution_random_permutation_def apply_along_axis1_def unpermuted_ok_def perm_table_def)

lemma permute_one_channel_ok:
  assumes "unpermuted_ok m c s h" and "in_bounds c channel" and "shuffle_of m pick"
  shows "\<exists>h'. Solution_permute_one_channel channel pick s h = Inr (s, h')
           \<and> permuted_ok m c s h' \<and> unpermuted_ok m c s h'"
proof -
  from assms(1) have s: "s < length (solutions h)"
    and m: "MetaModeSolution.n_modes (solutions h ! s) = m"
    and U: "perm_table m c (arrays h ! unpermuted_modes (solutions h ! s))"
    by (simp_all add: unpermuted_ok_def)
  from setitem_row_perm [OF U assms(2) mset_arange_pick [OF assms(3)]] obtain A where
    A: "setitem_row (arrays h ! unpermuted_modes (solutions h ! s)) channel
          (rng_permutation pick (arange m)) = Inr A" "perm_table m c A"
    by blast
  let ?h' = "\<lparr>arrays = arrays h @ [A],
               solutions = (solutions h)[s := (solutions h ! s)\<lparr>permuted_modes := Some (length (arrays h))\<rparr>]\<rparr>"
  have "Solution_permute_one_channel channel pick s h = Inr (s, ?h')"
    by (simp add: Solution_permute_one_channel_eq [OF s] m A(1))
  moreover have "permuted_ok m c s ?h' \<and> unpermuted_ok m c s ?h'"
    using assms(1) A(2) by (rule set_new_permuted_ok) simp
  ultimately show ?thesis by blast
qed

lemma Solution_step_ok:
  assumes "unpermuted_ok m c s h" and "draw_ok m c d"
  shows "\<exists>h'. Solution_step d s h = Inr (s, h')
           \<and> permuted_ok m c s h' \<and> unpermuted_ok m c s h'"
proof -
  from assms(2) have d: "fst d < c" "shuffle_of m (snd d)"
    by (simp_all add: draw_ok_def)
  from assms(1) have c: "MetaModeSolution.n_channels (solutions h ! s) = c"
    by (simp add: unpermuted_ok_def)
  have "in_bounds c (int (fst d))"
    using d(1) by (simp add: in_bounds_def)
  from permute_one_channel_ok [OF assms(1) this d(2)] show ?thesis
    using c d(1) by (simp add: Solution_step_eq)
qed

lemma Solution_copy_ok:
  assumes "permuted_ok m c s h"
  shows "\<exists>h1. Solution_copy s h = Inr (length (solutions h), h1)
           \<and> unpermuted_ok m c (length (solutions h)) h1 \<and> untouched h h1"
proof -
  from assms obtain p where
    s: "s < length (solutions h)" and p: "permuted_modes (solutions h ! s) = Some p"
    and pl: "p < length (arrays h)" and P: "perm_table m c (arrays h ! p)"
    and mc: "MetaModeSolution.n_modes (solutions h ! s) = m"
            "MetaModeSolution.n_channels (solutions h ! s) = c"
    by (auto simp: permuted_ok_def split: option.splits)
  show ?thesis
    using P mc by (simp add: Solution_copy_eq [OF p] unpermuted_ok_def untouched_def)
qed

text \<open>The candidate of \<^verbatim>\<open>MetaModeSolver.step\<close>: a copy of the best solution, mutated.\<close>

lemma candidate_ok:
  assumes "permuted_ok m c s h" and "draw_ok m c d"
  shows "\<exists>h1 h2. Solution_copy s h = Inr (length (solutions h), h1)
           \<and> Solution_step d (length (solutions h)) h1 = Inr (length (solutions h), h2)
           \<and> permuted_ok m c (length (solutions h)) h2
           \<and> permuted_ok m c s h2 \<and> untouched h h2"
proof -
  from Solution_copy_ok [OF assms(1)] obtain h1 where
    1: "Solution_copy s h = Inr (length (solutions h), h1)"
       "unpermuted_ok m c (length (solutions h)) h1" "untouched h h1"
    by blast
  from Solution_step_ok [OF 1(2) assms(2)] obtain h2 where
    2: "Solution_step d (length (solutions h)) h1 = Inr (length (solutions h), h2)"
       "permuted_ok m c (length (solutions h)) h2"
    by blast
  have l: "length (solutions h) < length (solutions h1)"
    using 1(2) by (simp add: unpermuted_ok_def)
  have u: "untouched h h2"
    using step_untouched [OF 2(1) l _ 1(3)] by simp
  from 1(1) 2 u permuted_ok_untouched [OF assms(1) u] show ?thesis by blast
qed

section \<open>The value of the objectives and of generate\<close>

lemma add_column_reindexer:
  assumes "shape0 P = c" and "shape1 P = m"
  shows "add_column P (map (\<lambda>a. a * int m) (arange c)) = Inr (global_table P m c)"
  using assms by (simp add: add_column_def global_table_def arange_def)

lemma valid_table_entry:
  assumes "valid_table m c P" and "a < c" and "i < m"
  shows "0 \<le> data P ! a ! i \<and> data P ! a ! i < int m"
proof -
  from assms(1,2) have r: "data P ! a \<in> set (data P)"
    by (simp add: valid_table_def wf2_def)
  with assms(1) have "length (data P ! a) = m"
    by (simp add: valid_table_def wf2_def)
  with assms(3) have "data P ! a ! i \<in> set (data P ! a)"
    by simp
  with assms(1) r show ?thesis
    unfolding valid_table_def by blast
qed

lemma global_index_bounds:
  assumes "valid_table m c P" and "a < c" and "i < m"
  shows "0 \<le> data P ! a ! i + int a * int m \<and> data P ! a ! i + int a * int m < int (c * m)"
proof -
  from valid_table_entry [OF assms] have e: "0 \<le> data P ! a ! i" "data P ! a ! i < int m"
    by simp_all
  have "int a * int m + int m \<le> int c * int m"
  proof -
    have "int a + 1 \<le> int c" using assms(2) by simp
    then have "(int a + 1) * int m \<le> int c * int m"
      by (rule mult_right_mono) simp
    then show ?thesis by (simp add: algebra_simps)
  qed
  with e show ?thesis by simp
qed

lemma in_bounds_nonneg: "0 \<le> k \<Longrightarrow> k < int n \<Longrightarrow> in_bounds n k \<and> wrap n k = nat k"
  by (simp add: in_bounds_def wrap_def)

lemma global_table_in_bounds:
  assumes "valid_table m c P" and "a < c" and "i < m"
  shows "in_bounds (c * m) (data (global_table P m c) ! a ! i)"
    and "wrap (c * m) (data (global_table P m c) ! a ! i) = nat (data P ! a ! i + int a * int m)"
    and "data (global_table P m c) ! a ! i = data P ! a ! i + int a * int m"
  using global_index_bounds [OF assms] assms(2,3)
  by (simp_all add: global_table_def in_bounds_nonneg)

text \<open>One slot of the loop: the sub-matrix of the slot, summed.\<close>

lemma slot_sum_value:
  assumes "valid_table m c P" and "i < m"
    and "shape0 big_corr = c * m" and "shape1 big_corr = c * m"
  shows "slot_sum big_corr (global_table P m c) i =
     Inr (\<Sum>a\<leftarrow>[0..<c]. \<Sum>b\<leftarrow>[0..<c]. claimed_entry big_corr P m i a b)"
proof -
  let ?G = "global_table P m c"
  let ?idx = "map (\<lambda>a. data ?G ! a ! i) [0..<c]"
  have col: "column ?G i = Inr ?idx"
    using assms(2) by (simp add: column_def global_table_def)
  have inb: "\<forall>k \<in> set ?idx. in_bounds (c * m) k"
    using global_table_in_bounds(1) [OF assms(1) _ assms(2)] by auto
  let ?fp = "\<lparr>shape0 = length ?idx, shape1 = c * m,
              data = map (\<lambda>k. data big_corr ! wrap (c * m) k) ?idx\<rparr>"
  have fp: "take_rows big_corr ?idx = Inr ?fp"
    using inb assms(3,4) unfolding take_rows_def by simp
  let ?sp = "\<lparr>shape0 = c, shape1 = length ?idx,
              data = map (\<lambda>a. map (\<lambda>k. data ?fp ! a ! wrap (c * m) k) ?idx) [0..<c]\<rparr>"
  have sp: "take_cols ?fp ?idx = Inr ?sp"
    using inb unfolding take_cols_def by simp
  have w: "wrap (c * m) (data ?G ! a ! i) = nat (data P ! a ! i + int a * int m)" if "a < c" for a
    using global_table_in_bounds(2) [OF assms(1) that assms(2)] .
  have e: "data ?sp ! a ! b = claimed_entry big_corr P m i a b"
    if "a \<in> set [0..<c]" and "b \<in> set [0..<c]" for a b
    using that w by (simp add: claimed_entry_def)
  have "array_sum ?sp = (\<Sum>a\<leftarrow>[0..<c]. \<Sum>b\<leftarrow>[0..<c]. data ?sp ! a ! b)"
    by (simp add: array_sum_def)
  also have "\<dots> = (\<Sum>a\<leftarrow>[0..<c]. \<Sum>b\<leftarrow>[0..<c]. claimed_entry big_corr P m i a b)"
    by (intro arg_cong [where f = sum_list] map_cong refl) (rule e)
  finally have total: "array_sum ?sp = (\<Sum>a\<leftarrow>[0..<c]. \<Sum>b\<leftarrow>[0..<c]. claimed_entry big_corr P m i a b)" .
  show ?thesis
    by (simp only: slot_sum_def col and_then_Inr fp sp total)
qed

lemma sum_loop_value:
  assumes "\<forall>i \<in> set ks. slot_sum big_corr perm i = Inr (f i)"
  shows "sum_loop big_corr perm ks ret = Inr (ret + (\<Sum>i\<leftarrow>ks. f i))"
  using assms by (induction ks arbitrary: ret) (simp_all add: add.assoc)

lemma abs_sum_loop_value:
  assumes "\<forall>i \<in> set ks. slot_sum big_corr perm i = Inr (f i)"
  shows "abs_sum_loop big_corr perm ks ret = Inr (ret + (\<Sum>i\<leftarrow>ks. \<bar>f i\<bar>))"
  using assms by (induction ks arbitrary: ret) (simp_all add: add.assoc)

lemma sum_perms_value:
  assumes "valid_table m c P" and "shape0 big_corr = c * m" and "shape1 big_corr = c * m"
  shows "sum_perms big_corr (global_table P m c) m c =
     Inr ((\<Sum>i\<leftarrow>[0..<m]. \<Sum>a\<leftarrow>[0..<c]. \<Sum>b\<leftarrow>[0..<c]. claimed_entry big_corr P m i a b)
          - real m * real c)"
proof -
  have "\<forall>i \<in> set [0..<m]. slot_sum big_corr (global_table P m c) i =
          Inr (\<Sum>a\<leftarrow>[0..<c]. \<Sum>b\<leftarrow>[0..<c]. claimed_entry big_corr P m i a b)"
    using slot_sum_value [OF assms(1) _ assms(2,3)] by simp
  from sum_loop_value [OF this] show ?thesis
    by (simp add: sum_perms_def)
qed

lemma abs_sum_perms_value:
  assumes "valid_table m c P" and "shape0 big_corr = c * m" and "shape1 big_corr = c * m"
  shows "abs_sum_perms big_corr (global_table P m c) m c =
     Inr ((\<Sum>i\<leftarrow>[0..<m]. \<bar>\<Sum>a\<leftarrow>[0..<c]. \<Sum>b\<leftarrow>[0..<c]. claimed_entry big_corr P m i a b\<bar>)
          - real m * real c)"
proof -
  have "\<forall>i \<in> set [0..<m]. slot_sum big_corr (global_table P m c) i =
          Inr (\<Sum>a\<leftarrow>[0..<c]. \<Sum>b\<leftarrow>[0..<c]. claimed_entry big_corr P m i a b)"
    using slot_sum_value [OF assms(1) _ assms(2,3)] by simp
  from abs_sum_loop_value [OF this] show ?thesis
    by (simp add: abs_sum_perms_def)
qed

lemma global_indices_value:
  assumes "problem_ok m c prob" and "permuted_modes (solutions h ! s) = Some p"
    and "valid_table m c (arrays h ! p)"
  shows "global_indices prob s h = Inr (global_table (arrays h ! p) m c)"
  using assms
  by (simp add: global_indices_def problem_ok_def add_column_reindexer valid_table_def)

lemma Problem_evaluate_value:
  assumes "problem_ok m c prob" and "permuted_modes (solutions h ! s) = Some p"
    and "valid_table m c (arrays h ! p)"
  shows "Problem_evaluate prob s h =
     (case objective prob of
        SUM' \<Rightarrow> Inr ((\<Sum>i\<leftarrow>[0..<m]. \<Sum>a\<leftarrow>[0..<c]. \<Sum>b\<leftarrow>[0..<c].
                        claimed_entry (correlation_matrix prob) (arrays h ! p) m i a b)
                     - real m * real c)
      | ABS_SUM \<Rightarrow> Inr ((\<Sum>i\<leftarrow>[0..<m]. \<bar>\<Sum>a\<leftarrow>[0..<c]. \<Sum>b\<leftarrow>[0..<c].
                        claimed_entry (correlation_matrix prob) (arrays h ! p) m i a b\<bar>)
                     - real m * real c)
      | DYN_SUM \<Rightarrow> Inl (KeyError (undefined_msg DYN_SUM)))"
proof -
  from assms(1) have sh: "shape0 (correlation_matrix prob) = c * m"
    "shape1 (correlation_matrix prob) = c * m"
    "MetaModeProblem.n_modes prob = m" "MetaModeProblem.n_channels prob = c"
    by (simp_all add: problem_ok_def)
  show ?thesis
    by (cases "objective prob")
       (simp_all add: Problem_evaluate_def func_def global_indices_value [OF assms] sh
          sum_perms_value [OF assms(3) sh(1,2)] abs_sum_perms_value [OF assms(3) sh(1,2)])
qed
lemma index_rows_global:
  assumes "valid_table m c P" and "shape0 A = c * m"
  shows "index_rows A (global_table P m c) =
     Inr \<lparr>shape3 = (c, m, shape1 A),
          data3 = map (\<lambda>a. map (\<lambda>i. data A ! nat (data P ! a ! i + int a * int m)) [0..<m]) [0..<c]\<rparr>"
proof -
  let ?G = "global_table P m c"
  have sh: "shape0 ?G = c" "shape1 ?G = m"
    by (simp_all add: global_table_def)
  have inb: "\<forall>a \<in> set [0..<c]. \<forall>i \<in> set [0..<m]. in_bounds (c * m) (data ?G ! a ! i)"
    using global_table_in_bounds(1) [OF assms(1)] by simp
  have w: "wrap (c * m) (data ?G ! a ! i) = nat (data P ! a ! i + int a * int m)"
    if "a \<in> set [0..<c]" and "i \<in> set [0..<m]" for a i
    using global_table_in_bounds(2) [OF assms(1)] that by simp
  have "map (\<lambda>a. map (\<lambda>i. data A ! wrap (c * m) (data ?G ! a ! i)) [0..<m]) [0..<c]
      = map (\<lambda>a. map (\<lambda>i. data A ! nat (data P ! a ! i + int a * int m)) [0..<m]) [0..<c]"
    by (intro map_cong refl arg_cong [where f = "(!) (data A)"]) (rule w)
  then show ?thesis
    using inb by (simp add: index_rows_def sh assms(2))
qed

lemma index_last_global:
  assumes "valid_table m c P"
  shows "index_last \<lparr>shape3 = (n0, n1, c * m), data3 = X\<rparr> (global_table P m c) =
     Inr \<lparr>shape4 = (n0, n1, c, m),
          data4 = map (\<lambda>a. map (\<lambda>i. map (\<lambda>b. map (\<lambda>j.
                    X ! a ! i ! nat (data P ! b ! j + int b * int m))
                  [0..<m]) [0..<c]) [0..<n1]) [0..<n0]\<rparr>"
proof -
  let ?G = "global_table P m c"
  have sh: "shape0 ?G = c" "shape1 ?G = m"
    by (simp_all add: global_table_def)
  have inb: "\<forall>a \<in> set [0..<c]. \<forall>i \<in> set [0..<m]. in_bounds (c * m) (data ?G ! a ! i)"
    using global_table_in_bounds(1) [OF assms(1)] by simp
  have w: "wrap (c * m) (data ?G ! b ! j) = nat (data P ! b ! j + int b * int m)"
    if "b \<in> set [0..<c]" and "j \<in> set [0..<m]" for b j
    using global_table_in_bounds(2) [OF assms(1)] that by simp
  have "map (\<lambda>a. map (\<lambda>i. map (\<lambda>b. map (\<lambda>j.
                    X ! a ! i ! wrap (c * m) (data ?G ! b ! j))
                  [0..<m]) [0..<c]) [0..<n1]) [0..<n0]
      = map (\<lambda>a. map (\<lambda>i. map (\<lambda>b. map (\<lambda>j.
                    X ! a ! i ! nat (data P ! b ! j + int b * int m))
                  [0..<m]) [0..<c]) [0..<n1]) [0..<n0]"
    by (intro map_cong refl) (simp only: w)
  then show ?thesis
    using inb by (simp add: index_last_def sh)
qed

text \<open>What \<^verbatim>\<open>generate\<close> returns: entry \<open>(i, x, y)\<close> pairs the global index of channel \<open>y\<close> with that of channel \<open>x\<close>.\<close>

lemma Problem_generate_value:
  assumes "problem_ok m c prob" and "permuted_modes (solutions h ! s) = Some p"
    and "valid_table m c (arrays h ! p)"
  shows "Problem_generate prob s h =
     Inr \<lparr>shape3 = (m, c, c),
          data3 = map (\<lambda>i. map (\<lambda>x. map (\<lambda>y.
                    claimed_entry (correlation_matrix prob) (arrays h ! p) m i y x)
                  [0..<c]) [0..<c]) [0..<m]\<rparr>"
proof -
  let ?A = "correlation_matrix prob" and ?P = "arrays h ! p"
  from assms(1) have sh: "shape0 ?A = c * m" "shape1 ?A = c * m"
    by (simp_all add: problem_ok_def)
  let ?X = "map (\<lambda>a. map (\<lambda>i. data ?A ! nat (data ?P ! a ! i + int a * int m)) [0..<m]) [0..<c]"
  let ?Y = "map (\<lambda>a. map (\<lambda>i. map (\<lambda>b. map (\<lambda>j.
                    ?X ! a ! i ! nat (data ?P ! b ! j + int b * int m))
                  [0..<m]) [0..<c]) [0..<m]) [0..<c]"
  have X: "index_rows ?A (global_table ?P m c) = Inr \<lparr>shape3 = (c, m, c * m), data3 = ?X\<rparr>"
    using index_rows_global [OF assms(3) sh(1)] by (simp add: sh)
  have Y: "index_last \<lparr>shape3 = (c, m, c * m), data3 = ?X\<rparr> (global_table ?P m c)
             = Inr \<lparr>shape4 = (c, m, c, m), data4 = ?Y\<rparr>"
    by (rule index_last_global [OF assms(3)])
  have D: "diagonal13 \<lparr>shape4 = (c, m, c, m), data4 = ?Y\<rparr> =
       \<lparr>shape3 = (c, c, m),
        data3 = map (\<lambda>a. map (\<lambda>b. map (\<lambda>k. ?Y ! a ! k ! b ! k) [0..<m]) [0..<c]) [0..<c]\<rparr>"
    by (simp add: diagonal13_def)
  have T: "transpose3 \<lparr>shape3 = (c, c, m),
        data3 = map (\<lambda>a. map (\<lambda>b. map (\<lambda>k. ?Y ! a ! k ! b ! k) [0..<m]) [0..<c]) [0..<c]\<rparr> =
       \<lparr>shape3 = (m, c, c),
        data3 = map (\<lambda>k. map (\<lambda>b. map (\<lambda>a.
                   map (\<lambda>a. map (\<lambda>b. map (\<lambda>k. ?Y ! a ! k ! b ! k) [0..<m]) [0..<c]) [0..<c] ! a ! b ! k)
                 [0..<c]) [0..<c]) [0..<m]\<rparr>"
    by (simp add: transpose3_def)
  have e: "map (\<lambda>a. map (\<lambda>b. map (\<lambda>k. ?Y ! a ! k ! b ! k) [0..<m]) [0..<c]) [0..<c] ! a ! b ! k
         = claimed_entry ?A ?P m k a b"
    if "k \<in> set [0..<m]" and "b \<in> set [0..<c]" and "a \<in> set [0..<c]" for a b k
    using that by (simp add: claimed_entry_def)
  have "map (\<lambda>k. map (\<lambda>b. map (\<lambda>a.
                   map (\<lambda>a. map (\<lambda>b. map (\<lambda>k. ?Y ! a ! k ! b ! k) [0..<m]) [0..<c]) [0..<c] ! a ! b ! k)
                 [0..<c]) [0..<c]) [0..<m]
      = map (\<lambda>i. map (\<lambda>x. map (\<lambda>y. claimed_entry ?A ?P m i y x) [0..<c]) [0..<c]) [0..<m]"
    by (intro map_cong refl) (rule e)
  with T have T': "transpose3 \<lparr>shape3 = (c, c, m),
        data3 = map (\<lambda>a. map (\<lambda>b. map (\<lambda>k. ?Y ! a ! k ! b ! k) [0..<m]) [0..<c]) [0..<c]\<rparr> =
       \<lparr>shape3 = (m, c, c),
        data3 = map (\<lambda>i. map (\<lambda>x. map (\<lambda>y. claimed_entry ?A ?P m i y x) [0..<c]) [0..<c]) [0..<m]\<rparr>"
    by simp
  show ?thesis
    by (simp only: Problem_generate_def global_indices_value [OF assms] and_then_Inr X Y D T')
qed
lemma Problem_init_ok:
  assumes "Problem_init corr m c sel = Inr prob"
    and "shape0 corr = c * m" and "shape1 corr = c * m"
  shows "problem_ok m c prob \<and> correlation_matrix prob = corr"
  using assms by (auto simp: Problem_init_def and_then_eq_Inr problem_ok_def)

lemma nat_global_index_bound:
  assumes "valid_table m c P" and "a < c" and "i < m"
  shows "nat (data P ! a ! i + int a * int m) < c * m"
proof -
  from global_index_bounds [OF assms]
  have "0 \<le> data P ! a ! i + int a * int m" "data P ! a ! i + int a * int m < int (c * m)"
    by blast+
  then show ?thesis by (simp only: nat_less_iff)
qed

lemma claimed_entry_symmetric:
  assumes "symmetric A" and "shape0 A = c * m" and "valid_table m c P"
    and "i < m" and "a < c" and "b < c"
  shows "claimed_entry A P m i b a = claimed_entry A P m i a b"
proof -
  have "nat (data P ! a ! i + int a * int m) < c * m" "nat (data P ! b ! i + int b * int m) < c * m"
    using nat_global_index_bound [OF assms(3,5,4)] nat_global_index_bound [OF assms(3,6,4)]
    by blast+
  with assms(1,2) show ?thesis
    by (simp add: symmetric_def claimed_entry_def)
qed

lemma ex_symmetric: "symmetric ex_corr"
  by code_simp

lemma ex_valid_table: "valid_table 2 2 (arrays ex_stepped ! 3)"
  by code_simp

lemma ex_generate:
  "Problem_generate ex_problem 1 ex_stepped =
     Inr \<lparr>shape3 = (2, 2, 2), data3 = [[[1, 1/2], [1/2, 1]], [[1, 1/2], [1/2, 1]]]\<rparr>"
  by code_simp

lemma ex_evaluate: "Problem_evaluate ex_problem 1 ex_stepped = Inr 2"
  by code_simp


text \<open>
  Claim C2. For a Problem constructed over a symmetric correlation matrix with
  \<open>n_channels * n_modes\<close> rows and columns, and a Solution whose \<open>permuted_modes\<close> is a
  valid table of \<open>n_channels\<close> rows and \<open>n_modes\<close> columns, \<^verbatim>\<open>generate\<close> returns a
  tensor of shape \<open>(n_modes, n_channels, n_channels)\<close> whose entry \<open>(i, a, b)\<close> is
  \<open>big_corr[perm[a][i] + a*n_modes, perm[b][i] + b*n_modes]\<close>; and \<^verbatim>\<open>evaluate\<close> with
  the sum objective returns the sum of all entries of that tensor minus
  \<open>n_modes * n_channels\<close>.
\<close>

theorem generate_materialises_sum_objective:
  assumes "Problem_init corr m c sel = Inr prob"
    and "shape0 corr = c * m" and "shape1 corr = c * m" and "symmetric corr"
    and "permuted_modes (solutions h ! s) = Some p" and "valid_table m c (arrays h ! p)"
  shows "\<exists>T. Problem_generate prob s h = Inr T
     \<and> shape3 T = (m, c, c)
     \<and> length (data3 T) = m
     \<and> (\<forall>i < m. length (data3 T ! i) = c \<and> (\<forall>a < c. length (data3 T ! i ! a) = c))
     \<and> (\<forall>i < m. \<forall>a < c. \<forall>b < c.
           data3 T ! i ! a ! b =
             data corr ! nat (data (arrays h ! p) ! a ! i + int a * int m)
                       ! nat (data (arrays h ! p) ! b ! i + int b * int m))
     \<and> (objective prob = SUM' \<longrightarrow>
           Problem_evaluate prob s h =
             Inr ((\<Sum>i\<leftarrow>[0..<m]. \<Sum>a\<leftarrow>[0..<c]. \<Sum>b\<leftarrow>[0..<c]. data3 T ! i ! a ! b)
                  - real m * real c))"
proof -
  let ?P = "arrays h ! p"
  let ?T = "\<lparr>shape3 = (m, c, c),
             data3 = map (\<lambda>i. map (\<lambda>x. map (\<lambda>y. claimed_entry corr ?P m i y x)
                       [0..<c]) [0..<c]) [0..<m]\<rparr>"
  from Problem_init_ok [OF assms(1-3)] have ok: "problem_ok m c prob"
    and corr: "correlation_matrix prob = corr"
    by simp_all
  have gen: "Problem_generate prob s h = Inr ?T"
    using Problem_generate_value [OF ok assms(5,6)] by (simp add: corr)
  have entry: "data3 ?T ! i ! a ! b = claimed_entry corr ?P m i a b"
    if "i < m" and "a < c" and "b < c" for i a b
    using that claimed_entry_symmetric [OF assms(4,2,6) that] by simp
  have entry': "data3 ?T ! i ! a ! b =
             data corr ! nat (data ?P ! a ! i + int a * int m)
                       ! nat (data ?P ! b ! i + int b * int m)"
    if "i < m" and "a < c" and "b < c" for i a b
    using entry [OF that] by (simp add: claimed_entry_def)
  have total: "(\<Sum>i\<leftarrow>[0..<m]. \<Sum>a\<leftarrow>[0..<c]. \<Sum>b\<leftarrow>[0..<c]. data3 ?T ! i ! a ! b)
      = (\<Sum>i\<leftarrow>[0..<m]. \<Sum>a\<leftarrow>[0..<c]. \<Sum>b\<leftarrow>[0..<c]. claimed_entry corr ?P m i a b)"
    by (intro arg_cong [where f = sum_list] map_cong refl) (rule entry, simp_all)
  have ev: "Problem_evaluate prob s h =
             Inr ((\<Sum>i\<leftarrow>[0..<m]. \<Sum>a\<leftarrow>[0..<c]. \<Sum>b\<leftarrow>[0..<c]. data3 ?T ! i ! a ! b)
                  - real m * real c)" if "objective prob = SUM'"
    unfolding total
    using Problem_evaluate_value [OF ok assms(5,6)] that by (simp add: corr)
  have len: "length (data3 ?T) = m"
    "\<forall>i < m. length (data3 ?T ! i) = c \<and> (\<forall>a < c. length (data3 ?T ! i ! a) = c)"
    by simp_all
  have sh: "shape3 ?T = (m, c, c)" by simp
  from gen sh len entry' ev show ?thesis
    by blast
qed
theorem generate_materialises_sum_objective_witness:
  "Problem_init ex_corr 2 2 (Str ''SUM'') = Inr ex_problem
   \<and> shape0 ex_corr = 2 * 2 \<and> shape1 ex_corr = 2 * 2 \<and> symmetric ex_corr
   \<and> permuted_modes (solutions ex_stepped ! 1) = Some 3
   \<and> valid_table 2 2 (arrays ex_stepped ! 3)
   \<and> objective ex_problem = SUM'
   \<and> Problem_generate ex_problem 1 ex_stepped =
        Inr \<lparr>shape3 = (2, 2, 2), data3 = [[[1, 1/2], [1/2, 1]], [[1, 1/2], [1/2, 1]]]\<rparr>
   \<and> Problem_evaluate ex_problem 1 ex_stepped = Inr ((1 + 1/2 + 1/2 + 1 + 1 + 1/2 + 1/2 + 1) - 2 * 2)"
proof -
  have sh: "shape0 ex_corr = 2 * 2" "shape1 ex_corr = 2 * 2"
    by (simp_all add: ex_corr_def)
  have p: "permuted_modes (solutions ex_stepped ! 1) = Some 3"
    by (simp add: ex_stepped_def)
  have ob: "objective ex_problem = SUM'"
    by (simp add: ex_problem_def)
  from generate_materialises_sum_objective
    [OF ex_problem_init sh ex_symmetric p ex_valid_table]
  have "\<exists>T. Problem_generate ex_problem 1 ex_stepped = Inr T"
    by blast
  then show ?thesis
    using ex_problem_init sh ex_symmetric p ex_valid_table ob
    by (simp add: ex_generate ex_evaluate del: One_nat_def)
qed


section \<open>The sum objective on the identity\<close>

lemma sum_list_delta:
  assumes "a < c"
  shows "(\<Sum>b\<leftarrow>[0..<c]. if a = b then 1 else 0) = (1::real)"
proof -
  have "(\<Sum>b\<leftarrow>[0..<c]. if a = b then 1 else 0) = (\<Sum>b \<in> {0..<c}. if a = b then 1 else (0::real))"
    by (simp add: interv_sum_list_conv_sum_set_nat)
  also have "\<dots> = 1"
    using assms by simp
  finally show ?thesis .
qed

lemma sum_list_const: "(\<Sum>a\<leftarrow>[0..<c]. k) = real c * (k::real)"
  by (simp add: interv_sum_list_conv_sum_set_nat)

lemma identity_slots:
  assumes "shape0 corr = c * m" and "shape1 corr = c * m"
    and "\<forall>j \<in> set [0..<c * m]. \<forall>k \<in> set [0..<c * m]. data corr ! j ! k = (if j = k then 1 else 0)"
  shows "(\<Sum>i\<leftarrow>[0..<m]. \<Sum>a\<leftarrow>[0..<c]. \<Sum>b\<leftarrow>[0..<c]. claimed_entry corr (tile (arange m) c) m i a b)
           = real m * real c"
proof -
  have bound: "i + a * m < c * m" if "i < m" "a < c" for i a
  proof -
    have "i + a * m < m + a * m" using that(1) by simp
    also have "\<dots> = (Suc a) * m" by simp
    also have "\<dots> \<le> c * m" using that(2) by (intro mult_le_mono1) simp
    finally show ?thesis .
  qed
  have e: "claimed_entry corr (tile (arange m) c) m i a b = (if a = b then 1 else 0)"
    if "i \<in> set [0..<m]" and "a \<in> set [0..<c]" and "b \<in> set [0..<c]" for i a b
  proof -
    from that have l: "i < m" "a < c" "b < c" by simp_all
    have "claimed_entry corr (tile (arange m) c) m i a b = data corr ! (i + a * m) ! (i + b * m)"
      using l by (simp add: claimed_entry_def tile_def arange_def nat_add_distrib nat_mult_distrib)
    also have "\<dots> = (if i + a * m = i + b * m then 1 else 0)"
      using assms(3) bound [OF l(1,2)] bound [OF l(1,3)] by simp
    also have "\<dots> = (if a = b then 1 else 0)"
      using l(1) by simp
    finally show ?thesis .
  qed
  have "(\<Sum>i\<leftarrow>[0..<m]. \<Sum>a\<leftarrow>[0..<c]. \<Sum>b\<leftarrow>[0..<c]. claimed_entry corr (tile (arange m) c) m i a b)
      = (\<Sum>i\<leftarrow>[0..<m]. \<Sum>a\<leftarrow>[0..<c]. \<Sum>b\<leftarrow>[0..<c]. if a = b then 1 else 0)"
    by (intro arg_cong [where f = sum_list] map_cong refl) (rule e)
  also have "\<dots> = (\<Sum>i\<leftarrow>[0..<m]. \<Sum>a\<leftarrow>[0..<c]. (1::real))"
    by (intro arg_cong [where f = sum_list] map_cong refl) (simp add: sum_list_delta)
  also have "\<dots> = real m * real c"
    by (simp add: sum_list_const)
  finally show ?thesis .
qed


text \<open>
  Claim C9. For every \<open>n_modes\<close> and \<open>n_channels\<close>, over a correlation matrix whose
  diagonal entries are 1 and whose other entries are 0, the sum objective on the
  identity table returns exactly 0: applied to the global indices of the identity table,
  and through \<^verbatim>\<open>evaluate\<close> on a Solution whose \<open>permuted_modes\<close> is the identity
  table.
\<close>

theorem sum_objective_zero_on_identity:
  assumes "unit_diagonal (c * m) corr"
  shows "and_then (add_column (tile (arange m) c) (map (\<lambda>a. a * int m) (arange c)))
           (\<lambda>perm. sum_perms corr perm m c) = Inr 0
     \<and> (Problem_init corr m c (Str ''SUM'') = Inr prob
          \<and> permuted_modes (solutions h ! s) = Some p \<and> arrays h ! p = tile (arange m) c
        \<longrightarrow> Problem_evaluate prob s h = Inr 0)"
proof (intro conjI impI)
  from assms have sh: "shape0 corr = c * m" "shape1 corr = c * m"
    and unit: "\<forall>j \<in> set [0..<c * m]. \<forall>k \<in> set [0..<c * m]. data corr ! j ! k = (if j = k then 1 else 0)"
    by (simp_all add: unit_diagonal_def)
  have v: "valid_table m c (tile (arange m) c)"
    by (rule perm_table_valid) (rule perm_table_tile)
  have g: "add_column (tile (arange m) c) (map (\<lambda>a. a * int m) (arange c))
             = Inr (global_table (tile (arange m) c) m c)"
    by (rule add_column_reindexer) (simp_all add: tile_def)
  show "and_then (add_column (tile (arange m) c) (map (\<lambda>a. a * int m) (arange c)))
           (\<lambda>perm. sum_perms corr perm m c) = Inr 0"
    by (simp add: g sum_perms_value [OF v sh] identity_slots [OF sh unit])
  assume a: "Problem_init corr m c (Str ''SUM'') = Inr prob
          \<and> permuted_modes (solutions h ! s) = Some p \<and> arrays h ! p = tile (arange m) c"
  then have ok: "problem_ok m c prob" and corr: "correlation_matrix prob = corr"
    using Problem_init_ok [OF _ sh] by blast+
  from a have ob: "objective prob = SUM'"
    by (auto simp: Problem_init_def Objective_getitem_def and_then_eq_Inr)
  from a have p: "permuted_modes (solutions h ! s) = Some p" and t: "arrays h ! p = tile (arange m) c"
    by simp_all
  have v': "valid_table m c (arrays h ! p)"
    using v t by simp
  show "Problem_evaluate prob s h = Inr 0"
    using Problem_evaluate_value [OF ok p v']
    by (simp add: ob corr t identity_slots [OF sh unit])
qed

theorem sum_objective_zero_on_identity_witness:
  "unit_diagonal (2 * 2) ex_identity
   \<and> Problem_init ex_identity 2 2 (Str ''SUM'') = Inr (ex_problem\<lparr>correlation_matrix := ex_identity\<rparr>)
   \<and> permuted_modes (solutions ex_started ! 0) = Some 1
   \<and> arrays ex_started ! 1 = tile (arange 2) 2
   \<and> Problem_evaluate (ex_problem\<lparr>correlation_matrix := ex_identity\<rparr>) 0 ex_started = Inr 0"
proof -
  have d: "unit_diagonal (2 * 2) ex_identity"
    by code_simp
  have i: "Problem_init ex_identity 2 2 (Str ''SUM'') = Inr (ex_problem\<lparr>correlation_matrix := ex_identity\<rparr>)"
    by code_simp
  have p: "permuted_modes (solutions ex_started ! 0) = Some 1"
    by (simp add: ex_started_def)
  have t: "arrays ex_started ! 1 = tile (arange 2) 2"
    by code_simp
  from sum_objective_zero_on_identity [OF d, of "ex_problem\<lparr>correlation_matrix := ex_identity\<rparr>" ex_started 0 1]
    i p t
  show ?thesis
    using d by (simp del: One_nat_def)
qed

section \<open>The search loop\<close>

lemma permuted_ok_table:
  assumes "permuted_ok m c s h"
  obtains p where "permuted_modes (solutions h ! s) = Some p" and "perm_table m c (arrays h ! p)"
  using assms by (auto simp: permuted_ok_def split: option.splits)

lemma evaluate_returns:
  assumes "problem_ok m c prob" and "objective prob \<noteq> DYN_SUM" and "permuted_ok m c s h"
  shows "\<exists>v. Problem_evaluate prob s h = Inr v"
proof -
  from assms(3) obtain p where p: "permuted_modes (solutions h ! s) = Some p"
    and t: "perm_table m c (arrays h ! p)"
    by (rule permuted_ok_table)
  from Problem_evaluate_value [OF assms(1) p perm_table_valid [OF t]] assms(2)
  show ?thesis by (cases "objective prob") simp_all
qed

lemma generate_returns:
  assumes "problem_ok m c prob" and "permuted_ok m c s h"
  shows "\<exists>t. Problem_generate prob s h = Inr t"
proof -
  from assms(2) obtain p where p: "permuted_modes (solutions h ! s) = Some p"
    and t: "perm_table m c (arrays h ! p)"
    by (rule permuted_ok_table)
  from Problem_generate_value [OF assms(1) p perm_table_valid [OF t]]
  show ?thesis by blast
qed

text \<open>A step that returns keeps the best solution a permutation table.\<close>

lemma Solver_step_preserves:
  assumes "Solver_step d self h = Inr (accepted, self', h')"
    and "permuted_ok m c (best_solution self) h" and "draw_ok m c d"
  shows "permuted_ok m c (best_solution self') h' \<and> problem self' = problem self
           \<and> iteration self' = iteration self \<and> record' self' = record' self
           \<and> steps self' = steps self \<and> untouched h h'"
proof -
  from candidate_ok [OF assms(2,3)] obtain h1 h2 where
    c: "Solution_copy (best_solution self) h = Inr (length (solutions h), h1)"
       "Solution_step d (length (solutions h)) h1 = Inr (length (solutions h), h2)"
       "permuted_ok m c (length (solutions h)) h2"
       "permuted_ok m c (best_solution self) h2" "untouched h h2"
    by blast
  from assms(1) obtain solution g1 r v where
    s: "Solution_copy (best_solution self) h = Inr (solution, g1)"
       "Solution_step d solution g1 = Inr (r, h')"
       "accepted \<Longrightarrow> self' = self\<lparr>best_solution := solution, best_value := v\<rparr>"
       "\<not> accepted \<Longrightarrow> self' = self"
    by (rule Solver_step_cases) blast
  from c(1) s(1) have e1: "solution = length (solutions h)" "g1 = h1" by simp_all
  with c(2) s(2) have e2: "h' = h2" by simp
  show ?thesis
    using c(3,4,5) s(3,4) e1 e2 by (cases accepted) simp_all
qed

text \<open>A step on a Solver in order returns.\<close>

lemma Solver_step_returns:
  assumes "solver_ok m c self h" and "draw_ok m c d"
  shows "\<exists>accepted self' h'. Solver_step d self h = Inr (accepted, self', h')"
proof -
  from assms(1) have ok: "problem_ok m c (problem self)" "objective (problem self) \<noteq> DYN_SUM"
    "permuted_ok m c (best_solution self) h"
    by (simp_all add: solver_ok_def)
  from candidate_ok [OF ok(3) assms(2)] obtain h1 h2 where
    c: "Solution_copy (best_solution self) h = Inr (length (solutions h), h1)"
       "Solution_step d (length (solutions h)) h1 = Inr (length (solutions h), h2)"
       "permuted_ok m c (length (solutions h)) h2"
    by blast
  from evaluate_returns [OF ok(1,2) c(3)] obtain v where
    v: "Problem_evaluate (problem self) (length (solutions h)) h2 = Inr v"
    by blast
  show ?thesis
    by (auto simp: Solver_step_def c(1,2) v)
qed

lemma solver_ok_step:
  assumes "Solver_step d self h = Inr (accepted, self', h')"
    and "solver_ok m c self h" and "draw_ok m c d"
  shows "solver_ok m c self' h'"
  using Solver_step_preserves [where m = m and c = c, OF assms(1) _ assms(3)] assms(2)
  by (simp add: solver_ok_def)

lemma Solver_step_keeps:
  assumes "Solver_step d self h = Inr (accepted, self', h')"
  shows "problem self' = problem self \<and> iteration self' = iteration self
           \<and> record' self' = record' self \<and> steps self' = steps self"
  using assms by (rule Solver_step_cases) (cases accepted; simp)

text \<open>The body of the loop of \<^verbatim>\<open>solve\<close>.\<close>

lemma solve_body_cases:
  assumes "solve_body d self h = Inr (self', h')"
  obtains accepted self1 where
    "Solver_step d self h = Inr (accepted, self1, h')"
    "iteration self' = iteration self1 + 1"
    "best_solution self' = best_solution self1" "best_value self' = best_value self1"
    "problem self' = problem self1"
    "accepted \<Longrightarrow> \<exists>t. Problem_generate (problem self1) (best_solution self1) h' = Inr t
        \<and> record' self' = record' self1 @ [(iteration self1, best_value self1)]
        \<and> steps self' = steps self1 @ [t]"
    "\<not> accepted \<Longrightarrow> record' self' = record' self1 \<and> steps self' = steps self1"
proof -
  from assms obtain accepted self1 self2 where
    1: "Solver_step d self h = Inr (accepted, self1, h')"
    and 2: "(if accepted
               then and_then (Problem_generate (problem self1) (best_solution self1) h') (\<lambda>t.
                      Inr (self1\<lparr>record' := record' self1 @ [(iteration self1, best_value self1)],
                                 steps := steps self1 @ [t]\<rparr>))
               else Inr self1) = Inr self2"
    and 3: "self' = self2\<lparr>iteration := iteration self2 + 1\<rparr>"
    unfolding solve_body_def by (auto simp: and_then_eq_Inr)
  show ?thesis
  proof (cases accepted)
    case True
    with 2 obtain t where "Problem_generate (problem self1) (best_solution self1) h' = Inr t"
      and "self2 = self1\<lparr>record' := record' self1 @ [(iteration self1, best_value self1)],
                                 steps := steps self1 @ [t]\<rparr>"
      by (auto simp: and_then_eq_Inr)
    with 1 3 True show ?thesis by (intro that [of accepted self1]) auto
  next
    case False
    with 2 have "self2 = self1" by simp
    with 1 3 False show ?thesis by (intro that [of accepted self1]) auto
  qed
qed

lemma solve_body_preserves:
  assumes "solve_body d self h = Inr (self', h')"
    and "permuted_ok m c (best_solution self) h" and "draw_ok m c d"
  shows "permuted_ok m c (best_solution self') h' \<and> problem self' = problem self"
proof -
  from assms(1) obtain accepted self1 where
    s: "Solver_step d self h = Inr (accepted, self1, h')"
       "best_solution self' = best_solution self1" "problem self' = problem self1"
    by (rule solve_body_cases) blast
  from Solver_step_preserves [OF s(1) assms(2,3)] s(2,3) show ?thesis by simp
qed

lemma solve_body_log:
  assumes "solve_body d self h = Inr (self', h')" and "log_ok self"
  shows "log_ok self' \<and> iteration self' = iteration self + 1"
proof -
  from assms(1) obtain accepted self1 where
    s: "Solver_step d self h = Inr (accepted, self1, h')"
       "iteration self' = iteration self1 + 1"
       "accepted \<Longrightarrow> \<exists>t. Problem_generate (problem self1) (best_solution self1) h' = Inr t
          \<and> record' self' = record' self1 @ [(iteration self1, best_value self1)]
          \<and> steps self' = steps self1 @ [t]"
       "\<not> accepted \<Longrightarrow> record' self' = record' self1 \<and> steps self' = steps self1"
    by (rule solve_body_cases) blast
  from Solver_step_keeps [OF s(1)] have
    k: "iteration self1 = iteration self" "record' self1 = record' self" "steps self1 = steps self"
    by simp_all
  from assms(2) have l: "length (record' self) = length (steps self)"
    "sorted_wrt (<) (map fst (record' self))"
    "\<forall>j \<in> set (map fst (record' self)). j < iteration self"
    by (simp_all add: log_ok_def list_all_iff)
  show ?thesis
  proof (cases accepted)
    case True
    with s(3) k obtain t where
      "record' self' = record' self @ [(iteration self, best_value self1)]"
      "steps self' = steps self @ [t]"
      by auto
    with l s(2) k(1) show ?thesis
      by (auto simp: log_ok_def list_all_iff sorted_wrt_append less_Suc_eq)
  next
    case False
    with s(4) k have "record' self' = record' self" "steps self' = steps self"
      by simp_all
    with l s(2) k(1) show ?thesis
      by (auto simp: log_ok_def list_all_iff less_Suc_eq)
  qed
qed

lemma solve_body_returns:
  assumes "solver_ok m c self h" and "draw_ok m c d"
  shows "\<exists>self' h'. solve_body d self h = Inr (self', h')"
proof -
  from Solver_step_returns [OF assms] obtain accepted self1 h1 where
    s: "Solver_step d self h = Inr (accepted, self1, h1)"
    by blast
  from solver_ok_step [OF s assms] have ok: "problem_ok m c (problem self1)"
    "permuted_ok m c (best_solution self1) h1"
    by (simp_all add: solver_ok_def)
  from generate_returns [OF ok] obtain t where
    "Problem_generate (problem self1) (best_solution self1) h1 = Inr t"
    by blast
  then show ?thesis
    by (simp add: solve_body_def s)
qed

lemma solver_ok_body:
  assumes "solve_body d self h = Inr (self', h')"
    and "solver_ok m c self h" and "draw_ok m c d"
  shows "solver_ok m c self' h'"
  using solve_body_preserves [where m = m and c = c, OF assms(1) _ assms(3)] assms(2)
  by (simp add: solver_ok_def)

lemma solve_loop_preserves:
  assumes "solve_loop draws ks self h = Inr (self', h')"
    and "permuted_ok m c (best_solution self) h" and "\<forall>k \<in> set ks. draw_ok m c (draws k)"
  shows "permuted_ok m c (best_solution self') h' \<and> problem self' = problem self"
  using assms
proof (induction ks arbitrary: self h)
  case Nil
  then show ?case by simp
next
  case (Cons k ks)
  from Cons.prems(1) obtain self1 h1 where
    1: "solve_body (draws k) self h = Inr (self1, h1)"
    and 2: "solve_loop draws ks self1 h1 = Inr (self', h')"
    by (auto simp: and_then_eq_Inr)
  from solve_body_preserves [OF 1 Cons.prems(2)] Cons.prems(3)
  have p: "permuted_ok m c (best_solution self1) h1" "problem self1 = problem self"
    by simp_all
  from Cons.IH [OF 2 p(1)] Cons.prems(3) p(2) show ?case by simp
qed

lemma solve_loop_log:
  assumes "solve_loop draws ks self h = Inr (self', h')" and "log_ok self"
  shows "log_ok self' \<and> iteration self' = iteration self + length ks"
  using assms
proof (induction ks arbitrary: self h)
  case Nil
  then show ?case by simp
next
  case (Cons k ks)
  from Cons.prems(1) obtain self1 h1 where
    1: "solve_body (draws k) self h = Inr (self1, h1)"
    and 2: "solve_loop draws ks self1 h1 = Inr (self', h')"
    by (auto simp: and_then_eq_Inr)
  from solve_body_log [OF 1 Cons.prems(2)]
  have l: "log_ok self1" "iteration self1 = iteration self + 1" by simp_all
  from Cons.IH [OF 2 l(1)] l(2) show ?case by simp
qed

lemma solve_loop_returns:
  assumes "solver_ok m c self h" and "\<forall>k \<in> set ks. draw_ok m c (draws k)"
  shows "\<exists>self' h'. solve_loop draws ks self h = Inr (self', h')"
  using assms
proof (induction ks arbitrary: self h)
  case Nil
  then show ?case by simp
next
  case (Cons k ks)
  from Cons.prems(2) have d: "draw_ok m c (draws k)" "\<forall>k \<in> set ks. draw_ok m c (draws k)"
    by simp_all
  from solve_body_returns [OF Cons.prems(1) d(1)] obtain self1 h1 where
    1: "solve_body (draws k) self h = Inr (self1, h1)"
    by blast
  from Cons.IH [OF solver_ok_body [OF 1 Cons.prems(1) d(1)] d(2)] 1 show ?case
    by simp
qed

text \<open>The constructor of the Solver.\<close>

lemma Solver_init_cases:
  assumes "Solver_init corr m c sel picks h = Inr (self, h')"
  obtains prob s h1 v where
    "Problem_init corr m c sel = Inr prob" "Solution_init m c None h = (s, h1)"
    "Solution_random_permutation picks s h1 = Inr (best_solution self, h')"
    "Problem_evaluate prob (best_solution self) h' = Inr v"
    "self = \<lparr>problem = prob, best_solution = best_solution self, best_value = v, iteration = 0,
             record' = [], steps = []\<rparr>"
proof -
  obtain s h1 where s: "Solution_init m c None h = (s, h1)"
    by (cases "Solution_init m c None h")
  from assms obtain prob best v where
    "Problem_init corr m c sel = Inr prob"
    "Solution_random_permutation picks s h1 = Inr (best, h')"
    "Problem_evaluate prob best h' = Inr v"
    "self = \<lparr>problem = prob, best_solution = best, best_value = v, iteration = 0,
             record' = [], steps = []\<rparr>"
    unfolding Solver_init_def s by (auto simp: and_then_eq_Inr)
  with s show ?thesis by (intro that [of prob s h1 v]) auto
qed

lemma Solver_init_log:
  assumes "Solver_init corr m c sel picks h = Inr (self, h')"
  shows "log_ok self \<and> iteration self = 0"
proof -
  from assms obtain prob v where
    i: "self = \<lparr>problem = prob, best_solution = best_solution self, best_value = v, iteration = 0,
             record' = [], steps = []\<rparr>"
    by (rule Solver_init_cases) blast
  show ?thesis
    by (subst i, subst (2) i, simp add: log_ok_def)
qed

lemma Solver_init_preserves:
  assumes "Solver_init corr m c sel picks h = Inr (self, h')"
    and "\<forall>a < c. shuffle_of m (picks a)"
  shows "permuted_ok m c (best_solution self) h' \<and> 0 < c"
proof -
  from assms(1) obtain s h1 where
    i: "Solution_init m c None h = (s, h1)"
       "Solution_random_permutation picks s h1 = Inr (best_solution self, h')"
    by (rule Solver_init_cases) blast
  from Solution_init_default_ok [OF i(1)] have u: "unpermuted_ok m c s h1" by simp
  have c: "0 < c"
  proof (rule ccontr)
    assume "\<not> 0 < c"
    with u have "unpermuted_ok m 0 s h1" by simp
    from random_permutation_no_channel [OF this] i(2) show False by simp
  qed
  from random_permutation_ok [OF u c assms(2)] i(2)
  have "permuted_ok m c (best_solution self) h'" by auto
  with c show ?thesis by simp
qed

lemma Solver_init_returns:
  assumes "0 < c" and "\<forall>a < c. shuffle_of m (picks a)"
    and "shape0 corr = c * m" and "shape1 corr = c * m"
    and "sel \<in> {Str ''SUM'', Str ''ABS_SUM'', Member SUM', Member ABS_SUM}"
  shows "\<exists>self h'. Solver_init corr m c sel picks h = Inr (self, h') \<and> solver_ok m c self h'"
proof -
  from assms(5) obtain prob where
    p: "Problem_init corr m c sel = Inr prob" and ob: "objective prob \<noteq> DYN_SUM"
    by (auto simp: Problem_init_def Objective_getitem_def)
  from Problem_init_ok [OF p assms(3,4)] have ok: "problem_ok m c prob" by simp
  obtain s h1 where s: "Solution_init m c None h = (s, h1)"
    by (cases "Solution_init m c None h")
  from Solution_init_default_ok [OF s] have u: "unpermuted_ok m c s h1" by simp
  from random_permutation_ok [OF u assms(1,2)] obtain h' where
    r: "Solution_random_permutation picks s h1 = Inr (s, h')" "permuted_ok m c s h'"
    by blast
  from evaluate_returns [OF ok ob r(2)] obtain v where
    v: "Problem_evaluate prob s h' = Inr v"
    by blast
  have "Solver_init corr m c sel picks h =
     Inr (\<lparr>problem = prob, best_solution = s, best_value = v, iteration = 0,
           record' = [], steps = []\<rparr>, h')"
    by (simp add: Solver_init_def p s r(1) v)
  moreover have "solver_ok m c \<lparr>problem = prob, best_solution = s, best_value = v, iteration = 0,
           record' = [], steps = []\<rparr> h'"
    using ok ob r(2) by (simp add: solver_ok_def)
  ultimately show ?thesis by blast
qed
lemma ex_solve: "Solver_solve 2 ex_draws ex_solver ex_started = Inr (ex_solved, ex_final)"
  by code_simp

lemma ex_solve_body:
  "solve_body (1, [1, 0]) ex_solver ex_started =
     Inr (ex_solver\<lparr>best_solution := 1, best_value := 2, iteration := 1, record' := [(0, 2)],
            steps := [\<lparr>shape3 = (2, 2, 2), data3 = [[[1, 1/2], [1/2, 1]], [[1, 1/2], [1/2, 1]]]\<rparr>]\<rparr>,
          ex_stepped)"
  by code_simp

lemma ex_shuffles: "shuffle_of 2 [0, 1]" "shuffle_of 2 [1, 0]"
  by code_simp+

lemma ex_draws_ok: "draw_ok 2 2 (ex_draws k)"
  by (simp add: ex_draws_def draw_ok_def ex_shuffles del: One_nat_def)


text \<open>
  Claim C6. One iteration of the loop of \<^verbatim>\<open>solve\<close> calls \<^verbatim>\<open>step()\<close> once and
  increments the iteration counter whatever the outcome; it appends one pair
  \<open>(iteration, best_value)\<close> to \<open>record\<close> and one generated tensor to \<open>steps\<close> exactly
  when the step was accepted. After \<^verbatim>\<open>solve(n_steps)\<close> on a freshly constructed
  Solver, \<open>record\<close> and \<open>steps\<close> have the same length, the iteration counter is
  \<open>n_steps\<close>, and the recorded iterations are strictly increasing. And the run does
  return: with at least one channel, a matrix of \<open>n_channels * n_modes\<close> rows and
  columns, an objective that has a function, and draws as numpy makes them, the
  constructor and \<^verbatim>\<open>solve\<close> both return.
\<close>

theorem solve_bookkeeping:
  "(solve_body d self h = Inr (self', h') \<longrightarrow>
      (\<exists>accepted self1.
          Solver_step d self h = Inr (accepted, self1, h')
        \<and> iteration self' = iteration self + 1
        \<and> (accepted \<longrightarrow>
             (\<exists>t. Problem_generate (problem self1) (best_solution self1) h' = Inr t
                \<and> record' self' = record' self @ [(iteration self, best_value self1)]
                \<and> steps self' = steps self @ [t]))
        \<and> (\<not> accepted \<longrightarrow> record' self' = record' self \<and> steps self' = steps self)))
   \<and> (Solver_init corr m c sel picks h0 = Inr (fresh, g)
        \<and> Solver_solve n_steps draws fresh g = Inr (solved, g') \<longrightarrow>
          length (record' solved) = length (steps solved)
        \<and> iteration solved = n_steps
        \<and> sorted_wrt (<) (map fst (record' solved)))
   \<and> (0 < c \<and> (\<forall>a < c. shuffle_of m (picks a))
        \<and> shape0 corr = c * m \<and> shape1 corr = c * m
        \<and> sel \<in> {Str ''SUM'', Str ''ABS_SUM'', Member SUM', Member ABS_SUM}
        \<and> (\<forall>k < n_steps. draw_ok m c (draws k)) \<longrightarrow>
          (\<exists>fresh g solved g'.
              Solver_init corr m c sel picks h0 = Inr (fresh, g)
            \<and> Solver_solve n_steps draws fresh g = Inr (solved, g')))"
proof (intro conjI impI)
  assume "solve_body d self h = Inr (self', h')"
  then obtain accepted self1 where
    s: "Solver_step d self h = Inr (accepted, self1, h')"
       "iteration self' = iteration self1 + 1"
       "accepted \<Longrightarrow> \<exists>t. Problem_generate (problem self1) (best_solution self1) h' = Inr t
          \<and> record' self' = record' self1 @ [(iteration self1, best_value self1)]
          \<and> steps self' = steps self1 @ [t]"
       "\<not> accepted \<Longrightarrow> record' self' = record' self1 \<and> steps self' = steps self1"
    by (rule solve_body_cases) blast
  from Solver_step_keeps [OF s(1)] have
    k: "iteration self1 = iteration self" "record' self1 = record' self" "steps self1 = steps self"
    by simp_all
  from s k show "\<exists>accepted self1.
          Solver_step d self h = Inr (accepted, self1, h')
        \<and> iteration self' = iteration self + 1
        \<and> (accepted \<longrightarrow>
             (\<exists>t. Problem_generate (problem self1) (best_solution self1) h' = Inr t
                \<and> record' self' = record' self @ [(iteration self, best_value self1)]
                \<and> steps self' = steps self @ [t]))
        \<and> (\<not> accepted \<longrightarrow> record' self' = record' self \<and> steps self' = steps self)"
    by (intro exI [of _ accepted] exI [of _ self1]) auto
next
  assume a: "Solver_init corr m c sel picks h0 = Inr (fresh, g)
        \<and> Solver_solve n_steps draws fresh g = Inr (solved, g')"
  then have i: "log_ok fresh" "iteration fresh = 0"
    using Solver_init_log [of corr m c sel picks h0 fresh g] by simp_all
  from a have "solve_loop draws [0..<n_steps] fresh g = Inr (solved, g')"
    by (simp add: Solver_solve_def)
  from solve_loop_log [OF this i(1)] i(2)
  have l: "log_ok solved" "iteration solved = n_steps" by simp_all
  from l(1) show "length (record' solved) = length (steps solved)"
    by (simp add: log_ok_def)
  from l(2) show "iteration solved = n_steps" .
  from l(1) show "sorted_wrt (<) (map fst (record' solved))"
    by (simp add: log_ok_def)
next
  assume a: "0 < c \<and> (\<forall>a < c. shuffle_of m (picks a))
        \<and> shape0 corr = c * m \<and> shape1 corr = c * m
        \<and> sel \<in> {Str ''SUM'', Str ''ABS_SUM'', Member SUM', Member ABS_SUM}
        \<and> (\<forall>k < n_steps. draw_ok m c (draws k))"
  then have "\<exists>fresh g. Solver_init corr m c sel picks h0 = Inr (fresh, g) \<and> solver_ok m c fresh g"
    by (intro Solver_init_returns) simp_all
  then obtain fresh g where
    f: "Solver_init corr m c sel picks h0 = Inr (fresh, g)" "solver_ok m c fresh g"
    by blast
  from a have "\<forall>k \<in> set [0..<n_steps]. draw_ok m c (draws k)" by simp
  from solve_loop_returns [OF f(2) this] obtain solved g' where
    "Solver_solve n_steps draws fresh g = Inr (solved, g')"
    by (auto simp: Solver_solve_def)
  with f(1) show "\<exists>fresh g solved g'.
              Solver_init corr m c sel picks h0 = Inr (fresh, g)
            \<and> Solver_solve n_steps draws fresh g = Inr (solved, g')"
    by blast
qed

theorem solve_bookkeeping_witness:
  "Solver_init ex_corr 2 2 (Str ''SUM'') (\<lambda>a. [0, 1]) ex_store = Inr (ex_solver, ex_started)
   \<and> Solver_solve 2 ex_draws ex_solver ex_started = Inr (ex_solved, ex_final)
   \<and> length (record' ex_solved) = length (steps ex_solved)
   \<and> iteration ex_solved = 2
   \<and> sorted_wrt (<) (map fst (record' ex_solved))
   \<and> solve_body (1, [1, 0]) ex_solver ex_started =
       Inr (ex_solver\<lparr>best_solution := 1, best_value := 2, iteration := 1, record' := [(0, 2)],
              steps := [\<lparr>shape3 = (2, 2, 2), data3 = [[[1, 1/2], [1/2, 1]], [[1, 1/2], [1/2, 1]]]\<rparr>]\<rparr>,
            ex_stepped)
   \<and> iteration (ex_solver\<lparr>best_solution := 1, best_value := 2, iteration := 1, record' := [(0, 2)],
              steps := [\<lparr>shape3 = (2, 2, 2), data3 = [[[1, 1/2], [1/2, 1]], [[1, 1/2], [1/2, 1]]]\<rparr>]\<rparr>)
       = iteration ex_solver + 1
   \<and> (\<exists>fresh g solved g'.
          Solver_init ex_corr 2 2 (Str ''SUM'') (\<lambda>a. [0, 1]) ex_store = Inr (fresh, g)
        \<and> Solver_solve 2 ex_draws fresh g = Inr (solved, g'))"
proof -
  have sh: "shape0 ex_corr = 2 * 2" "shape1 ex_corr = 2 * 2"
    by (simp_all add: ex_corr_def)
  have hyp: "0 < (2::nat) \<and> (\<forall>a < 2. shuffle_of 2 ((\<lambda>a. [0, 1]) a))
        \<and> shape0 ex_corr = 2 * 2 \<and> shape1 ex_corr = 2 * 2
        \<and> Str ''SUM'' \<in> {Str ''SUM'', Str ''ABS_SUM'', Member SUM', Member ABS_SUM}
        \<and> (\<forall>k < 2. draw_ok 2 2 (ex_draws k))"
    using sh ex_shuffles ex_draws_ok by simp
  note t = solve_bookkeeping
    [where d = "(1, [1, 0])" and self = ex_solver and h = ex_started
       and self' = "ex_solver\<lparr>best_solution := 1, best_value := 2, iteration := 1, record' := [(0, 2)],
              steps := [\<lparr>shape3 = (2, 2, 2), data3 = [[[1, 1/2], [1/2, 1]], [[1, 1/2], [1/2, 1]]]\<rparr>]\<rparr>"
       and h' = ex_stepped
       and corr = ex_corr and m = 2 and c = 2 and sel = "Str ''SUM''" and picks = "\<lambda>a. [0, 1]"
       and ?h0.0 = ex_store and fresh = ex_solver and g = ex_started and n_steps = 2
       and draws = ex_draws and solved = ex_solved and g' = ex_final]
  from t have 1: "length (record' ex_solved) = length (steps ex_solved)
        \<and> iteration ex_solved = 2
        \<and> sorted_wrt (<) (map fst (record' ex_solved))"
    using ex_solver_init ex_solve by blast
  from t have 2: "iteration (ex_solver\<lparr>best_solution := 1, best_value := 2, iteration := 1, record' := [(0, 2)],
              steps := [\<lparr>shape3 = (2, 2, 2), data3 = [[[1, 1/2], [1/2, 1]], [[1, 1/2], [1/2, 1]]]\<rparr>]\<rparr>)
       = iteration ex_solver + 1"
    using ex_solve_body by blast
  from t hyp have 3: "\<exists>fresh g solved g'.
              Solver_init ex_corr 2 2 (Str ''SUM'') (\<lambda>a. [0, 1]) ex_store = Inr (fresh, g)
            \<and> Solver_solve 2 ex_draws fresh g = Inr (solved, g')"
    by blast
  from 1 2 3 ex_solver_init ex_solve ex_solve_body show ?thesis
    by blast
qed

section \<open>Rows are permutations\<close>

lemma perm_row_distinct:
  assumes "mset r = mset (arange m)"
  shows "distinct r \<and> set r = set (arange m) \<and> length r = m"
proof -
  have "distinct (arange m)"
    by (simp add: arange_def distinct_map)
  with assms have "distinct r"
    by (metis mset_eq_imp_distinct_iff)
  moreover from assms have "set r = set (arange m)"
    by (rule mset_eq_setD)
  moreover from assms have "length r = m"
    by (metis length_arange mset_eq_length)
  ultimately show ?thesis by simp
qed

lemma permuted_ok_rows:
  assumes "permuted_ok m c s h"
  shows "\<exists>p. permuted_modes (solutions h ! s) = Some p
           \<and> length (data (arrays h ! p)) = c
           \<and> (\<forall>r \<in> set (data (arrays h ! p)).
                 mset r = mset (arange m) \<and> distinct r \<and> set r = set (arange m))"
proof -
  from assms obtain p where p: "permuted_modes (solutions h ! s) = Some p"
    and t: "perm_table m c (arrays h ! p)"
    by (rule permuted_ok_table)
  from t have "length (data (arrays h ! p)) = c"
    "\<forall>r \<in> set (data (arrays h ! p)). mset r = mset (arange m)"
    by (simp_all add: perm_table_def wf2_def)
  with p perm_row_distinct show ?thesis by blast
qed


text \<open>
  Claim C3. A default Solution has an identity table with \<open>n_channels\<close> rows, each a
  permutation of \<open>0..n_modes-1\<close>. On any Solution whose \<open>unpermuted_modes\<close> is such a
  table, \<^verbatim>\<open>random_permutation()\<close> (with at least one channel),
  \<^verbatim>\<open>permute_one_channel(channel)\<close> with \<open>0 \<le> channel < n_channels\<close> and
  \<^verbatim>\<open>step()\<close> return, with draws as numpy makes them, and leave a \<open>permuted_modes\<close>
  in which every row is a permutation of \<open>0..n_modes-1\<close>: no repeats, all values
  present. The invariant holds for the best solution of a freshly constructed Solver and
  is preserved by \<^verbatim>\<open>Solver.step()\<close> and by \<^verbatim>\<open>solve\<close>, through the copy-then-mutate
  loop.
\<close>

theorem rows_stay_permutations:
  "unpermuted_ok m c (fst (Solution_init m c None h0)) (snd (Solution_init m c None h0))
   \<and> (unpermuted_ok m c s h \<and> 0 < c \<and> (\<forall>a < c. shuffle_of m (picks a)) \<longrightarrow>
        (\<exists>h'. Solution_random_permutation picks s h = Inr (s, h')
            \<and> permuted_ok m c s h' \<and> unpermuted_ok m c s h'))
   \<and> (unpermuted_ok m c s h \<and> 0 \<le> channel \<and> channel < int c \<and> shuffle_of m pick \<longrightarrow>
        (\<exists>h'. Solution_permute_one_channel channel pick s h = Inr (s, h')
            \<and> permuted_ok m c s h' \<and> unpermuted_ok m c s h'))
   \<and> (unpermuted_ok m c s h \<and> draw_ok m c d \<longrightarrow>
        (\<exists>h'. Solution_step d s h = Inr (s, h')
            \<and> permuted_ok m c s h' \<and> unpermuted_ok m c s h'))
   \<and> (permuted_ok m c s h \<longrightarrow>
        (\<exists>p. permuted_modes (solutions h ! s) = Some p
           \<and> length (data (arrays h ! p)) = c
           \<and> (\<forall>r \<in> set (data (arrays h ! p)).
                 mset r = mset (arange m) \<and> distinct r \<and> set r = set (arange m))))
   \<and> (Solver_init corr m c sel picks h0 = Inr (fresh, g) \<and> (\<forall>a < c. shuffle_of m (picks a)) \<longrightarrow>
        permuted_ok m c (best_solution fresh) g)
   \<and> (permuted_ok m c (best_solution self) h \<and> draw_ok m c d
        \<and> Solver_step d self h = Inr (accepted, self', h') \<longrightarrow>
        permuted_ok m c (best_solution self') h')
   \<and> (permuted_ok m c (best_solution self) h \<and> (\<forall>k < n_steps. draw_ok m c (draws k))
        \<and> Solver_solve n_steps draws self h = Inr (solved, h'') \<longrightarrow>
        permuted_ok m c (best_solution solved) h'')"
proof (intro conjI impI)
  show "unpermuted_ok m c (fst (Solution_init m c None h0)) (snd (Solution_init m c None h0))"
    using Solution_init_default_ok [of m c h0] by (cases "Solution_init m c None h0") simp
next
  assume "unpermuted_ok m c s h \<and> 0 < c \<and> (\<forall>a < c. shuffle_of m (picks a))"
  then show "\<exists>h'. Solution_random_permutation picks s h = Inr (s, h')
            \<and> permuted_ok m c s h' \<and> unpermuted_ok m c s h'"
    by (intro random_permutation_ok) simp_all
next
  assume a: "unpermuted_ok m c s h \<and> 0 \<le> channel \<and> channel < int c \<and> shuffle_of m pick"
  then have "in_bounds c channel"
    by (simp add: in_bounds_def)
  with a show "\<exists>h'. Solution_permute_one_channel channel pick s h = Inr (s, h')
            \<and> permuted_ok m c s h' \<and> unpermuted_ok m c s h'"
    by (intro permute_one_channel_ok) simp_all
next
  assume "unpermuted_ok m c s h \<and> draw_ok m c d"
  then show "\<exists>h'. Solution_step d s h = Inr (s, h')
            \<and> permuted_ok m c s h' \<and> unpermuted_ok m c s h'"
    by (intro Solution_step_ok) simp_all
next
  assume "permuted_ok m c s h"
  then show "\<exists>p. permuted_modes (solutions h ! s) = Some p
           \<and> length (data (arrays h ! p)) = c
           \<and> (\<forall>r \<in> set (data (arrays h ! p)).
                 mset r = mset (arange m) \<and> distinct r \<and> set r = set (arange m))"
    by (rule permuted_ok_rows)
next
  assume "Solver_init corr m c sel picks h0 = Inr (fresh, g) \<and> (\<forall>a < c. shuffle_of m (picks a))"
  then show "permuted_ok m c (best_solution fresh) g"
    using Solver_init_preserves [of corr m c sel picks h0 fresh g] by simp
next
  assume "permuted_ok m c (best_solution self) h \<and> draw_ok m c d
        \<and> Solver_step d self h = Inr (accepted, self', h')"
  then show "permuted_ok m c (best_solution self') h'"
    using Solver_step_preserves [of d self h accepted self' h' m c] by simp
next
  assume a: "permuted_ok m c (best_solution self) h \<and> (\<forall>k < n_steps. draw_ok m c (draws k))
        \<and> Solver_solve n_steps draws self h = Inr (solved, h'')"
  then have "solve_loop draws [0..<n_steps] self h = Inr (solved, h'')"
    "\<forall>k \<in> set [0..<n_steps]. draw_ok m c (draws k)"
    by (simp_all add: Solver_solve_def)
  from solve_loop_preserves [OF this(1) _ this(2)] a
  show "permuted_ok m c (best_solution solved) h''"
    by simp
qed

theorem rows_stay_permutations_witness:
  "Solution_init 2 2 None ex_store = (0, ex_fresh)
   \<and> unpermuted_ok 2 2 0 ex_fresh
   \<and> (\<exists>h'. Solution_random_permutation (\<lambda>a. [0, 1]) 0 ex_fresh = Inr (0, h') \<and> permuted_ok 2 2 0 h')
   \<and> (\<exists>h'. Solution_permute_one_channel 1 [1, 0] 0 ex_fresh = Inr (0, h') \<and> permuted_ok 2 2 0 h')
   \<and> (\<exists>h'. Solution_step (1, [1, 0]) 0 ex_fresh = Inr (0, h') \<and> permuted_ok 2 2 0 h')
   \<and> Solver_init ex_corr 2 2 (Str ''SUM'') (\<lambda>a. [0, 1]) ex_store = Inr (ex_solver, ex_started)
   \<and> permuted_ok 2 2 (best_solution ex_solver) ex_started
   \<and> Solver_step (1, [1, 0]) ex_solver ex_started
        = Inr (True, ex_solver\<lparr>best_solution := 1, best_value := 2\<rparr>, ex_stepped)
   \<and> permuted_ok 2 2 (best_solution (ex_solver\<lparr>best_solution := 1, best_value := 2\<rparr>)) ex_stepped
   \<and> Solver_solve 2 ex_draws ex_solver ex_started = Inr (ex_solved, ex_final)
   \<and> permuted_ok 2 2 (best_solution ex_solved) ex_final
   \<and> permuted_modes (solutions ex_final ! best_solution ex_solved) = Some 3
   \<and> data (arrays ex_final ! 3) = [[0, 1], [1, 0]]"
proof -
  note t = rows_stay_permutations
    [where m = 2 and c = 2 and ?h0.0 = ex_store and corr = ex_corr and sel = "Str ''SUM''"
       and picks = "\<lambda>a. [0, 1]" and fresh = ex_solver and g = ex_started
       and self = ex_solver and h = ex_started and n_steps = 2 and draws = ex_draws
       and solved = ex_solved and h'' = ex_final and d = "(1, [1, 0])" and accepted = True
       and self' = "ex_solver\<lparr>best_solution := 1, best_value := 2\<rparr>" and h' = ex_stepped]
  note u = rows_stay_permutations
    [where m = 2 and c = 2 and ?h0.0 = ex_store and s = 0 and h = ex_fresh
       and picks = "\<lambda>a. [0, 1]" and channel = 1 and pick = "[1, 0]" and d = "(1, [1, 0])"]
  have d: "draw_ok 2 2 (1, [1, 0])"
    using ex_draws_ok [of 0] by (simp add: ex_draws_def)
  from t have 1: "unpermuted_ok 2 2 0 ex_fresh"
    by (simp add: ex_fresh_init)
  have sh: "(0::nat) < 2 \<and> (\<forall>a < (2::nat). shuffle_of 2 [0, 1])"
    using ex_shuffles by simp
  from u 1 sh have 2: "\<exists>h'. Solution_random_permutation (\<lambda>a. [0, 1]) 0 ex_fresh = Inr (0, h') \<and> permuted_ok 2 2 0 h'"
    by blast
  have "(0::int) \<le> 1 \<and> (1::int) < int 2"
    by simp
  with u 1 have 3: "\<exists>h'. Solution_permute_one_channel 1 [1, 0] 0 ex_fresh = Inr (0, h') \<and> permuted_ok 2 2 0 h'"
    using ex_shuffles by blast
  from u 1 d have 4: "\<exists>h'. Solution_step (1, [1, 0]) 0 ex_fresh = Inr (0, h') \<and> permuted_ok 2 2 0 h'"
    by blast
  from t sh have 5: "permuted_ok 2 2 (best_solution ex_solver) ex_started"
    using ex_solver_init by blast
  from t 5 d have 6: "permuted_ok 2 2 (best_solution (ex_solver\<lparr>best_solution := 1, best_value := 2\<rparr>)) ex_stepped"
    using ex_solver_step by blast
  from t 5 have 7: "permuted_ok 2 2 (best_solution ex_solved) ex_final"
    using ex_solve ex_draws_ok by blast
  have 8: "permuted_modes (solutions ex_final ! best_solution ex_solved) = Some 3"
    "data (arrays ex_final ! 3) = [[0, 1], [1, 0]]"
    by (simp_all add: ex_final_def ex_solved_def)
  from 1 2 3 4 5 6 7 8 ex_fresh_init ex_solver_init ex_solver_step ex_solve show ?thesis
    by blast
qed

end
